theory Spec2Isabelle
  imports Complex_Main "HOL-Library.Word" "HOL-Library.Char_ord" "HOL-Library.List_Lexorder"
begin

section \<open>Buffers, strings and hexadecimal text\<close>

text \<open>
  A Node \<open>Buffer\<close> is a list of bytes. A JavaScript string is a list of UTF-16 code
  units; the development covers strings whose code units are below 256, so that a HOL
  \<open>char\<close> stands for one code unit. The hash functions of \<open>node:crypto\<close>
  (BLAKE2b-512, SHA-512, SHA-256) are parameters of every definition that calls them.
\<close>

type_synonym byte = "8 word"
type_synonym buffer = "byte list"

datatype error =
    EmptyTree
  | IndexOutOfRange
  | TypeError
  | NotAFile
  | InvalidChunkSize
  | IOError
  | SyntaxError
  | RangeError

text \<open>\<open>buf.toString("hex")\<close>: two lowercase digits per byte.\<close>

definition hexDigit :: "nat \<Rightarrow> char" where
  "hexDigit n = ''0123456789abcdef'' ! n"

definition toHex :: "buffer \<Rightarrow> string" where
  "toHex bs = concat (map (\<lambda>b. [hexDigit (unat b div 16), hexDigit (unat b mod 16)]) bs)"

text \<open>
  \<open>Buffer.from(s, "hex")\<close>: digit pairs are decoded from the left; decoding stops at
  the first pair that is not two hexadecimal digits, and a trailing single digit is dropped.
\<close>

definition hexVal :: "char \<Rightarrow> nat option" where
  "hexVal c =
     (let n = (of_char c :: nat) in
      if 48 \<le> n \<and> n \<le> 57 then Some (n - 48)
      else if 97 \<le> n \<and> n \<le> 102 then Some (n - 87)
      else if 65 \<le> n \<and> n \<le> 70 then Some (n - 55)
      else None)"

fun fromHex :: "string \<Rightarrow> buffer" where
  "fromHex (a # b # rest) =
     (case hexVal a of
        None \<Rightarrow> []
      | Some x \<Rightarrow>
          (case hexVal b of
             None \<Rightarrow> []
           | Some y \<Rightarrow> word_of_nat (16 * x + y) # fromHex rest))"
| "fromHex _ = []"

text \<open>\<open>Buffer.from(s)\<close> (UTF-8) for code units below 256.\<close>

definition utf8 :: "string \<Rightarrow> buffer" where
  "utf8 s =
     concat (map (\<lambda>c. let n = (of_char c :: nat) in
                        if n < 128 then [word_of_nat n]
                        else [word_of_nat (192 + n div 64), word_of_nat (128 + n mod 64)]) s)"

text \<open>
  A small stand-in for a hash function, used only to evaluate the definitions on concrete
  inputs: it folds the bytes into one byte and depends on their order.
\<close>

definition toyHash :: "buffer \<Rightarrow> buffer" where
  "toyHash bs = [foldl (\<lambda>acc b. 3 * acc + b + 1) 7 bs]"

text \<open>
  \<open>a % b\<close> on integers: the remainder takes the sign of the dividend.
  \<open>Math.floor(a / b)\<close> is \<open>a div b\<close>.
\<close>

definition remainder :: "int \<Rightarrow> int \<Rightarrow> int" where
  "remainder a b = (if a < 0 then - ((- a) mod \<bar>b\<bar>) else a mod \<bar>b\<bar>)"

text \<open>\<open>xs[i]\<close> of a JavaScript array: \<open>undefined\<close> outside the range.\<close>

definition elemAt :: "'a list \<Rightarrow> int \<Rightarrow> 'a option" where
  "elemAt xs i = (if 0 \<le> i \<and> i < int (length xs) then Some (xs ! nat i) else None)"

section \<open>Merkle engine (src/core/merkle.ts)\<close>

text \<open>Indices are integers, as every caller passes them.\<close>

record merkle_result =
  root_hex :: string
  leaf_count :: nat

record MerkleProof =
  index :: int
  leaf_hex :: string
  siblings_hex :: "string list"

text \<open>
  The inner \<open>for\<close> loop of \<open>merkleRootFromLeafHex\<close> and \<open>buildLevels\<close>: nodes are
  taken two at a time, \<open>right = level[i + 1] ?? level[i]\<close>.
\<close>

fun nextLevel :: "(buffer \<Rightarrow> buffer) \<Rightarrow> buffer list \<Rightarrow> buffer list" where
  "nextLevel h [] = []"
| "nextLevel h [left] = [h (left @ left)]"
| "nextLevel h (left # right # rest) = h (left @ right) # nextLevel h rest"

lemma length_nextLevel: "length (nextLevel h level) = (length level + 1) div 2"
  by (induction h level rule: nextLevel.induct) auto

text \<open>The \<open>while (level.length > 1)\<close> loop of \<open>merkleRootFromLeafHex\<close>.\<close>

function reduceLevel :: "(buffer \<Rightarrow> buffer) \<Rightarrow> buffer list \<Rightarrow> buffer list" where
  "reduceLevel h level = (if length level > 1 then reduceLevel h (nextLevel h level) else level)"
  by pat_completeness auto
termination
  by (relation "measure (\<lambda>(h, level). length level)") (auto simp: length_nextLevel)

declare reduceLevel.simps [simp del]

definition emptyRoot :: "(buffer \<Rightarrow> buffer) \<Rightarrow> buffer" where
  "emptyRoot h = h (utf8 ''resethiq:empty'')"

definition merkleRootFromLeafHex :: "(buffer \<Rightarrow> buffer) \<Rightarrow> string list \<Rightarrow> error + merkle_result" where
  "merkleRootFromLeafHex h leafHex =
     (if length leafHex = 0 then Inr \<lparr>root_hex = toHex (emptyRoot h), leaf_count = 0\<rparr>
      else
        (case elemAt (reduceLevel h (map fromHex leafHex)) 0 of
           None \<Rightarrow> Inl TypeError
         | Some topNode \<Rightarrow> Inr \<lparr>root_hex = toHex topNode, leaf_count = length leafHex\<rparr>))"

text \<open>\<open>buildLevels\<close>: every level from the leaves to the root.\<close>

function levelsFrom :: "(buffer \<Rightarrow> buffer) \<Rightarrow> buffer list \<Rightarrow> buffer list list" where
  "levelsFrom h level =
     (if length level > 1 then level # levelsFrom h (nextLevel h level) else [level])"
  by pat_completeness auto
termination
  by (relation "measure (\<lambda>(h, level). length level)") (auto simp: length_nextLevel)

declare levelsFrom.simps [simp del]

definition buildLevels :: "(buffer \<Rightarrow> buffer) \<Rightarrow> string list \<Rightarrow> buffer list list" where
  "buildLevels h leafHex =
     (let level = map fromHex leafHex in
      if length level = 0 then [[emptyRoot h]] else levelsFrom h level)"

text \<open>
  The sibling of node \<open>idx\<close> on one level, as \<open>merkleProof\<close> picks it:
  \<open>nodes[pairIdx] ?? nodes[idx]\<close> with \<open>pairIdx = isRight ? idx - 1 : idx + 1\<close>.
\<close>

definition siblingOf :: "buffer list \<Rightarrow> int \<Rightarrow> buffer option" where
  "siblingOf nodes idx =
     (let isRight = (remainder idx 2 = 1);
          pairIdx = (if isRight then idx - 1 else idx + 1)
      in case elemAt nodes pairIdx of
           Some s \<Rightarrow> Some s
         | None \<Rightarrow> elemAt nodes idx)"

text \<open>
  The loop of \<open>merkleProof\<close> over \<open>level = 0 .. levels.length - 2\<close>: the top level
  contributes no sibling. \<open>sibling.toString\<close> on \<open>undefined\<close> is a TypeError.
\<close>

fun collectSiblings :: "buffer list list \<Rightarrow> int \<Rightarrow> error + string list" where
  "collectSiblings [] idx = Inr []"
| "collectSiblings [topLevel] idx = Inr []"
| "collectSiblings (nodes # upper) idx =
     (case siblingOf nodes idx of
        None \<Rightarrow> Inl TypeError
      | Some s \<Rightarrow>
          (case collectSiblings upper (idx div 2) of
             Inl e \<Rightarrow> Inl e
           | Inr rest \<Rightarrow> Inr (toHex s # rest)))"

definition merkleProof :: "(buffer \<Rightarrow> buffer) \<Rightarrow> string list \<Rightarrow> int \<Rightarrow> error + MerkleProof" where
  "merkleProof h leafHex i =
     (if length leafHex = 0 then Inl EmptyTree
      else if i < 0 \<or> i \<ge> int (length leafHex) then Inl IndexOutOfRange
      else
        (case collectSiblings (buildLevels h leafHex) i of
           Inl e \<Rightarrow> Inl e
         | Inr siblings \<Rightarrow>
             Inr \<lparr>index = i, leaf_hex = leafHex ! nat i, siblings_hex = siblings\<rparr>))"

fun verifyLoop :: "(buffer \<Rightarrow> buffer) \<Rightarrow> buffer \<Rightarrow> int \<Rightarrow> string list \<Rightarrow> buffer" where
  "verifyLoop h node idx [] = node"
| "verifyLoop h node idx (sibHex # rest) =
     (let sib = fromHex sibHex;
          isRight = (remainder idx 2 = 1);
          node' = (if isRight then h (sib @ node) else h (node @ sib))
      in verifyLoop h node' (idx div 2) rest)"

definition verifyProof :: "(buffer \<Rightarrow> buffer) \<Rightarrow> string \<Rightarrow> MerkleProof \<Rightarrow> bool" where
  "verifyProof h rootHex proof =
     (toHex (verifyLoop h (fromHex (leaf_hex proof)) (index proof) (siblings_hex proof)) = rootHex)"

section \<open>JSON values and serialisation (src/integrity/kernel/hashing.ts)\<close>

text \<open>
  A JavaScript number is a finite value or one of \<open>NaN\<close>, \<open>Infinity\<close>, \<open>-Infinity\<close>.
  The decimal text of a finite number (\<open>Number.prototype.toString\<close>) belongs to the
  runtime and is the parameter \<open>fmt\<close> of the serialisers.
\<close>

datatype jsnum = Finite rat | NaN | PosInfinity | NegInfinity

text \<open>
  A JSON-like value. An object is the list of its own properties in property order
  (the order of \<open>Object.keys\<close>); a JavaScript object has no two properties of one name.
\<close>

datatype json =
    JNull
  | JBool bool
  | JNum jsnum
  | JStr string
  | JArr "json list"
  | JObj "(string \<times> json) list"

text \<open>\<open>JSON.stringify\<close> of a string: quotes, and the escapes of ECMA-262 QuoteJSONString.\<close>

definition escapeChar :: "char \<Rightarrow> string" where
  "escapeChar c =
     (let n = (of_char c :: nat) in
      if n = 8 then [CHR 0x5C, CHR ''b'']
      else if n = 9 then [CHR 0x5C, CHR ''t'']
      else if n = 10 then [CHR 0x5C, CHR ''n'']
      else if n = 12 then [CHR 0x5C, CHR ''f'']
      else if n = 13 then [CHR 0x5C, CHR ''r'']
      else if n = 34 then [CHR 0x5C, CHR 0x22]
      else if n = 92 then [CHR 0x5C, CHR 0x5C]
      else if n < 32 then
        [CHR 0x5C, CHR ''u'', CHR ''0'', CHR ''0'', hexDigit (n div 16), hexDigit (n mod 16)]
      else [c])"

definition quote :: "string \<Rightarrow> string" where
  "quote s = [CHR 0x22] @ concat (map escapeChar s) @ [CHR 0x22]"

text \<open>\<open>JSON.stringify\<close> of a number: a non-finite number is written \<open>null\<close>.\<close>

definition numberToJSON :: "(rat \<Rightarrow> string) \<Rightarrow> jsnum \<Rightarrow> string" where
  "numberToJSON fmt n = (case n of Finite q \<Rightarrow> fmt q | _ \<Rightarrow> ''null'')"

text \<open>\<open>Array.prototype.join\<close>.\<close>

fun join :: "string \<Rightarrow> string list \<Rightarrow> string" where
  "join sep [] = []"
| "join sep [x] = x"
| "join sep (x # y # rest) = x @ sep @ join sep (y # rest)"

text \<open>\<open>xs.map(f)\<close> where \<open>f\<close> may throw: the first exception ends the traversal.\<close>

fun mapE :: "('a \<Rightarrow> error + 'b) \<Rightarrow> 'a list \<Rightarrow> error + 'b list" where
  "mapE f [] = Inr []"
| "mapE f (x # xs) =
     (case f x of
        Inl e \<Rightarrow> Inl e
      | Inr y \<Rightarrow> (case mapE f xs of Inl e \<Rightarrow> Inl e | Inr ys \<Rightarrow> Inr (y # ys)))"

lemma mapE_cong [fundef_cong]:
  "xs = ys \<Longrightarrow> (\<And>x. x \<in> set ys \<Longrightarrow> f x = g x) \<Longrightarrow> mapE f xs = mapE g ys"
  by (induction ys arbitrary: xs) (auto split: sum.splits)

lemma size_map_of:
  "map_of ps k = Some v \<Longrightarrow> size v < Suc (size_list (size_prod (\<lambda>_. 0) size) ps)"
  by (induction ps) (auto split: if_splits)

text \<open>
  \<open>stableStringify\<close>: \<open>Object.keys(x).sort()\<close> orders the keys by code units, and each
  value is read back as \<open>x[k]\<close>. Applied to \<open>undefined\<close> the function reaches
  \<open>Object.keys(undefined)\<close>, a TypeError.
\<close>

function stableStringify :: "(rat \<Rightarrow> string) \<Rightarrow> json \<Rightarrow> error + string" where
  "stableStringify fmt JNull = Inr ''null''"
| "stableStringify fmt (JBool b) = Inr (if b then ''true'' else ''false'')"
| "stableStringify fmt (JNum n) = Inr (numberToJSON fmt n)"
| "stableStringify fmt (JStr s) = Inr (quote s)"
| "stableStringify fmt (JArr xs) =
     (case mapE (stableStringify fmt) xs of
        Inl e \<Rightarrow> Inl e
      | Inr parts \<Rightarrow> Inr (''['' @ join '','' parts @ '']''))"
| "stableStringify fmt (JObj ps) =
     (let keys = sort (map fst ps) in
      case mapE (\<lambda>k. case map_of ps k of
                         None \<Rightarrow> Inl TypeError
                       | Some v \<Rightarrow>
                           (case stableStringify fmt v of
                              Inl e \<Rightarrow> Inl e
                            | Inr s \<Rightarrow> Inr (quote k @ '':'' @ s))) keys of
        Inl e \<Rightarrow> Inl e
      | Inr parts \<Rightarrow> Inr (''{'' @ join '','' parts @ ''}''))"
  by pat_completeness auto
termination
  apply (relation "measure (\<lambda>(fmt, v). size v)")
    apply simp
   apply (simp add: less_Suc_eq_le size_list_estimation')
  apply (simp add: size_map_of)
  done

text \<open>\<open>hashHex\<close> and \<open>hashJSON\<close>, with SHA-256 as the parameter \<open>sha256\<close>.\<close>

definition hashHex :: "(buffer \<Rightarrow> buffer) \<Rightarrow> buffer \<Rightarrow> string" where
  "hashHex sha256 buf = toHex (sha256 buf)"

definition hashJSON :: "(buffer \<Rightarrow> buffer) \<Rightarrow> (rat \<Rightarrow> string) \<Rightarrow> json \<Rightarrow> error + string" where
  "hashJSON sha256 fmt obj =
     (case stableStringify fmt obj of
        Inl e \<Rightarrow> Inl e
      | Inr s \<Rightarrow> Inr (hashHex sha256 (utf8 s)))"

text \<open>
  \<open>JSON.stringify(x)\<close> without indentation, on JSON-like values: properties are written
  in property order.
\<close>

fun JSON_stringify :: "(rat \<Rightarrow> string) \<Rightarrow> json \<Rightarrow> string" where
  "JSON_stringify fmt JNull = ''null''"
| "JSON_stringify fmt (JBool b) = (if b then ''true'' else ''false'')"
| "JSON_stringify fmt (JNum n) = numberToJSON fmt n"
| "JSON_stringify fmt (JStr s) = quote s"
| "JSON_stringify fmt (JArr xs) = ''['' @ join '','' (map (JSON_stringify fmt) xs) @ '']''"
| "JSON_stringify fmt (JObj ps) =
     ''{'' @ join '','' (map (\<lambda>(k, v). quote k @ '':'' @ JSON_stringify fmt v) ps) @ ''}''"

text \<open>
  The decimal text of an integer, as \<open>Number.prototype.toString\<close> writes the integers of
  magnitude below \<open>10^21\<close>; it serves as \<open>fmt\<close> in concrete evaluations.
\<close>

fun digits :: "nat \<Rightarrow> string" where
  "digits n = (if n < 10 then [hexDigit n] else digits (n div 10) @ [hexDigit (n mod 10)])"

definition decimal :: "rat \<Rightarrow> string" where
  "decimal q = (let i = \<lfloor>q\<rfloor> in if i < 0 then ''-'' @ digits (nat (- i)) else digits (nat i))"

section \<open>Receipts (src/integrity/kernel/receipt.ts)\<close>

text \<open>
  Object spread and property assignment: an existing property keeps its place and takes the
  new value, a new property is added last.
\<close>

fun setProp :: "(string \<times> json) list \<Rightarrow> string \<Rightarrow> json \<Rightarrow> (string \<times> json) list" where
  "setProp [] k v = [(k, v)]"
| "setProp ((k', v') # ps) k v = (if k' = k then (k, v) # ps else (k', v') # setProp ps k v)"

definition spread :: "(string \<times> json) list \<Rightarrow> (string \<times> json) list \<Rightarrow> (string \<times> json) list" where
  "spread base extra = foldl (\<lambda>acc (k, v). setProp acc k v) base extra"

text \<open>
  \<open>createReceipt(data)\<close>: \<open>base = {receipt_version: "1", ...data}\<close>, hashed by
  \<open>hashJSON\<close>, and returned as \<open>{...base, receipt_hash}\<close>.
\<close>

definition receiptBase :: "(string \<times> json) list \<Rightarrow> (string \<times> json) list" where
  "receiptBase data = spread [(''receipt_version'', JStr ''1'')] data"

definition createReceipt ::
  "(buffer \<Rightarrow> buffer) \<Rightarrow> (rat \<Rightarrow> string) \<Rightarrow> (string \<times> json) list \<Rightarrow> error + json" where
  "createReceipt sha256 fmt data =
     (let base = receiptBase data in
      case hashJSON sha256 fmt (JObj base) of
        Inl e \<Rightarrow> Inl e
      | Inr receipt_hash \<Rightarrow> Inr (JObj (setProp base ''receipt_hash'' (JStr receipt_hash))))"

section \<open>Values that denote the same finite map at every object\<close>

text \<open>
  Two JSON-like values are the same up to the order of object properties: atoms are equal,
  arrays agree position by position, and two objects have the same property names, each
  bound to values that are again the same.
\<close>

inductive sameValue :: "json \<Rightarrow> json \<Rightarrow> bool" where
  sameNull: "sameValue JNull JNull"
| sameBool: "sameValue (JBool b) (JBool b)"
| sameNum: "sameValue (JNum n) (JNum n)"
| sameStr: "sameValue (JStr s) (JStr s)"
| sameArr: "list_all2 sameValue xs ys \<Longrightarrow> sameValue (JArr xs) (JArr ys)"
| sameObj:
    "distinct (map fst ps) \<Longrightarrow> distinct (map fst qs) \<Longrightarrow>
     set (map fst ps) = set (map fst qs) \<Longrightarrow>
     (\<forall>k \<in> set (map fst ps). \<exists>v w. map_of ps k = Some v \<and> map_of qs k = Some w \<and> sameValue v w) \<Longrightarrow>
     sameValue (JObj ps) (JObj qs)"

code_pred sameValue .

text \<open>\<open>x[k]\<close> on a value that is not \<open>null\<close>; \<open>None\<close> is \<open>undefined\<close>.\<close>

definition getProp :: "json \<Rightarrow> string \<Rightarrow> json option" where
  "getProp x k = (case x of JObj ps \<Rightarrow> map_of ps k | _ \<Rightarrow> None)"

section \<open>Streaming fingerprinter (\<open>streamDigestsAndLeaves\<close> of the command-line tool)\<close>

text \<open>
  \<open>buf.subarray(start, end)\<close> and \<open>buf.subarray(start)\<close>: an index is truncated toward
  zero, a negative index counts from the end, and both are clamped to the buffer.
\<close>

definition relativeIndex :: "rat \<Rightarrow> nat \<Rightarrow> nat" where
  "relativeIndex x len =
     (let i = (if x < 0 then \<lceil>x\<rceil> else \<lfloor>x\<rfloor>) in
      if i < 0 then nat (max 0 (int len + i)) else min (nat i) len)"

definition subarray :: "buffer \<Rightarrow> rat \<Rightarrow> rat \<Rightarrow> buffer" where
  "subarray b start end =
     (let s = relativeIndex start (length b); e = relativeIndex end (length b)
      in take (e - s) (drop s b))"

definition subarrayFrom :: "buffer \<Rightarrow> rat \<Rightarrow> buffer" where
  "subarrayFrom b start = drop (relativeIndex start (length b)) b"

definition leafHash :: "(buffer \<Rightarrow> buffer) \<Rightarrow> buffer \<Rightarrow> string" where
  "leafHash blake2b chunk = toHex (blake2b chunk)"

text \<open>
  The variables of \<open>streamDigestsAndLeaves\<close>. A streaming hasher is represented by the
  bytes fed to it so far; its digest is the hash of all of them. The chunk size is a
  finite number: both callers test \<open>Number.isFinite\<close> before the stream is opened.
\<close>

record stream_state =
  bytes :: nat
  buf :: buffer
  chunks :: nat
  leafHexes :: "string list"
  fileBlake2b :: buffer
  fileSha512 :: buffer

text \<open>
  The loop \<open>while (buf.length >= chunkSize)\<close> of the \<open>data\<close> handler. It is not
  guaranteed to end: \<open>None\<close> stands for a loop that never ends.
\<close>

partial_function (option) drainChunks ::
  "(buffer \<Rightarrow> buffer) \<Rightarrow> rat \<Rightarrow> stream_state \<Rightarrow> stream_state option" where
  "drainChunks blake2b chunkSize st =
     (if of_nat (length (buf st)) \<ge> chunkSize then
        let out = subarray (buf st) 0 chunkSize in
        drainChunks blake2b chunkSize
          (st\<lparr>buf := subarrayFrom (buf st) chunkSize,
              leafHexes := leafHexes st @ [leafHash blake2b out],
              chunks := chunks st + 1\<rparr>)
      else Some st)"

declare drainChunks.simps [code]

definition onData ::
  "(buffer \<Rightarrow> buffer) \<Rightarrow> rat \<Rightarrow> stream_state \<Rightarrow> buffer \<Rightarrow> stream_state option" where
  "onData blake2b chunkSize st chunk =
     drainChunks blake2b chunkSize
       (st\<lparr>bytes := bytes st + length chunk,
           fileBlake2b := fileBlake2b st @ chunk,
           fileSha512 := fileSha512 st @ chunk,
           buf := buf st @ chunk\<rparr>)"

text \<open>
  What the path names: nothing (\<open>stat\<close> fails), something that is not a regular file, or
  a file delivered by the read stream as a sequence of \<open>data\<close> events, ended by \<open>end\<close>
  or by \<open>error\<close>.
\<close>

datatype source = NoEntry | NotRegular | Regular "buffer list" | Failing "buffer list"

fun readAll ::
  "(buffer \<Rightarrow> buffer) \<Rightarrow> rat \<Rightarrow> stream_state \<Rightarrow> buffer list \<Rightarrow> stream_state option" where
  "readAll blake2b chunkSize st [] = Some st"
| "readAll blake2b chunkSize st (chunk # rest) =
     (case onData blake2b chunkSize st chunk of
        None \<Rightarrow> None
      | Some st' \<Rightarrow> readAll blake2b chunkSize st' rest)"

text \<open>
  The result of \<open>streamDigestsAndLeaves\<close>. Where a field name of the source is already
  in use it carries a prefix: \<open>fp_bytes\<close> is \<open>bytes\<close>, \<open>fp_file_digests\<close> is
  \<open>file_digests\<close> and \<open>mc_leaf_count\<close> is \<open>merkle.leaf_count\<close>.
\<close>

record file_digests =
  blake2b_512 :: string
  sha512 :: string

record merkle_commitment =
  algorithm :: string
  root :: string
  mc_leaf_count :: nat
  chunk_size :: rat

record fingerprint =
  fp_bytes :: nat
  chunks_count :: nat
  leaf_hexes :: "string list"
  fp_file_digests :: file_digests
  merkle :: merkle_commitment

definition initialState :: stream_state where
  "initialState = \<lparr>bytes = 0, buf = [], chunks = 0, leafHexes = [], fileBlake2b = [], fileSha512 = []\<rparr>"

text \<open>After the stream has ended: the final short leaf, the Merkle root, the result.\<close>

definition finish ::
  "(buffer \<Rightarrow> buffer) \<Rightarrow> (buffer \<Rightarrow> buffer) \<Rightarrow> rat \<Rightarrow> stream_state \<Rightarrow> error + fingerprint" where
  "finish blake2b sha512h chunkSize st =
     (let st' = (if length (buf st) > 0
                 then st\<lparr>leafHexes := leafHexes st @ [leafHash blake2b (buf st)],
                         chunks := chunks st + 1, buf := []\<rparr>
                 else st)
      in case merkleRootFromLeafHex blake2b (leafHexes st') of
           Inl e \<Rightarrow> Inl e
         | Inr m \<Rightarrow>
             Inr \<lparr>fp_bytes = bytes st',
                  chunks_count = chunks st',
                  leaf_hexes = leafHexes st',
                  fp_file_digests =
                    \<lparr>blake2b_512 = toHex (blake2b (fileBlake2b st')),
                     sha512 = toHex (sha512h (fileSha512 st'))\<rparr>,
                  merkle =
                    \<lparr>algorithm = ''blake2b512'', root = root_hex m,
                     mc_leaf_count = leaf_count m, chunk_size = chunkSize\<rparr>\<rparr>)"

definition streamDigestsAndLeaves ::
  "(buffer \<Rightarrow> buffer) \<Rightarrow> (buffer \<Rightarrow> buffer) \<Rightarrow> source \<Rightarrow> rat \<Rightarrow> (error + fingerprint) option" where
  "streamDigestsAndLeaves blake2b sha512h src chunkSize =
     (case src of
        NoEntry \<Rightarrow> Some (Inl IOError)
      | NotRegular \<Rightarrow> Some (Inl NotAFile)
      | Regular reads \<Rightarrow>
          (case readAll blake2b chunkSize initialState reads of
             None \<Rightarrow> None
           | Some st \<Rightarrow> Some (finish blake2b sha512h chunkSize st))
      | Failing reads \<Rightarrow>
          (case readAll blake2b chunkSize initialState reads of
             None \<Rightarrow> None
           | Some st \<Rightarrow> Some (Inl IOError)))"

text \<open>
  The \<open>i\<close>-th chunk of width \<open>c\<close> of a byte sequence, in stream order; the last one
  may be short.
\<close>

definition chunkAt :: "nat \<Rightarrow> buffer \<Rightarrow> nat \<Rightarrow> buffer" where
  "chunkAt c x i = take c (drop (i * c) x)"

text \<open>
  The state of the stream handler once the bytes \<open>y\<close> have been delivered, for an
  integral chunk size \<open>c\<close>, whatever the sizes of the reads were.
\<close>

definition stateAfter :: "(buffer \<Rightarrow> buffer) \<Rightarrow> nat \<Rightarrow> buffer \<Rightarrow> stream_state" where
  "stateAfter blake2b c y =
     \<lparr>bytes = length y,
      buf = drop (length y div c * c) y,
      chunks = length y div c,
      leafHexes = map (\<lambda>i. leafHash blake2b (chunkAt c y i)) [0..<length y div c],
      fileBlake2b = y,
      fileSha512 = y\<rparr>"

section \<open>The attest operation of the command-line tool\<close>

text \<open>
  \<open>Array.from(new Set(xs))\<close>: the elements of \<open>xs\<close> in order of first occurrence.
\<close>

definition insertionSet :: "'a list \<Rightarrow> 'a list" where
  "insertionSet xs = foldl (\<lambda>acc x. if x \<in> set acc then acc else acc @ [x]) [] xs"

text \<open>The deterministic sample indices.\<close>

definition sampleIndices :: "nat \<Rightarrow> int list" where
  "sampleIndices leafCount =
     (let n = int leafCount in
      insertionSet
        (filter (\<lambda>i. i \<ge> 0 \<and> i < n)
           [0, n div 4, n div 2, (3 * n) div 4, max 0 (n - 1)]))"

record sampled_proof = MerkleProof +
  verifies :: bool

definition sampleProof :: "(buffer \<Rightarrow> buffer) \<Rightarrow> string list \<Rightarrow> string \<Rightarrow> int \<Rightarrow> error + sampled_proof" where
  "sampleProof blake2b leaves rootHex i =
     (case merkleProof blake2b leaves i of
        Inl e \<Rightarrow> Inl e
      | Inr p \<Rightarrow>
          Inr \<lparr>index = index p, leaf_hex = leaf_hex p, siblings_hex = siblings_hex p,
               verifies = verifyProof blake2b rootHex p\<rparr>)"

definition sampledProofs ::
  "(buffer \<Rightarrow> buffer) \<Rightarrow> string list \<Rightarrow> string \<Rightarrow> int list \<Rightarrow> error + sampled_proof list" where
  "sampledProofs blake2b leaves rootHex indices = mapE (sampleProof blake2b leaves rootHex) indices"

text \<open>
  What the run contributes to the manifest: \<open>crypto.randomUUID()\<close>, the clock,
  \<open>path.basename(filePath)\<close> and the \<open>process\<close> fields.
\<close>

record run_context =
  run_id :: string
  created_at :: string
  filename :: string
  node :: string
  platform :: string
  arch :: string

definition manifestOf :: "run_context \<Rightarrow> nat \<Rightarrow> json" where
  "manifestOf ctx bytesOnDisk =
     JObj [(''schema'', JStr ''resethiq.manifest.v1''),
           (''engine'', JObj [(''name'', JStr ''Resethiq Integrity Engine''),
                              (''version'', JStr ''0.1.0'')]),
           (''run'', JObj [(''run_id'', JStr (run_id ctx)),
                           (''created_at'', JStr (created_at ctx))]),
           (''subject'', JObj [(''filename'', JStr (filename ctx)),
                               (''bytes'', JNum (Finite (of_nat bytesOnDisk)))]),
           (''environment'', JObj [(''node'', JStr (node ctx)),
                                   (''platform'', JStr (platform ctx)),
                                   (''arch'', JStr (arch ctx))])]"

definition fileDigestsJson :: "file_digests \<Rightarrow> json" where
  "fileDigestsJson d = JObj [(''blake2b_512'', JStr (blake2b_512 d)), (''sha512'', JStr (sha512 d))]"

definition merkleJson :: "merkle_commitment \<Rightarrow> json" where
  "merkleJson m =
     JObj [(''algorithm'', JStr (algorithm m)),
           (''root'', JStr (root m)),
           (''leaf_count'', JNum (Finite (of_nat (mc_leaf_count m)))),
           (''chunk_size'', JNum (Finite (chunk_size m)))]"

definition signedPayloadOf :: "string \<Rightarrow> fingerprint \<Rightarrow> json" where
  "signedPayloadOf manifest_sha512 core =
     JObj [(''schema'', JStr ''resethiq.signed_payload.v1''),
           (''manifest_sha512'', JStr manifest_sha512),
           (''file_digests'', fileDigestsJson (fp_file_digests core)),
           (''merkle'', merkleJson (merkle core))]"

definition sampledJson :: "sampled_proof \<Rightarrow> json" where
  "sampledJson p =
     JObj [(''index'', JNum (Finite (of_int (index p)))),
           (''leaf_hex'', JStr (leaf_hex p)),
           (''siblings_hex'', JArr (map JStr (siblings_hex p))),
           (''verifies'', JBool (verifies p))]"

text \<open>\<open>sha512Hex\<close> of a string: the digest of its UTF-8 bytes, in hex.\<close>

definition sha512Hex :: "(buffer \<Rightarrow> buffer) \<Rightarrow> string \<Rightarrow> string" where
  "sha512Hex sha512h input = toHex (sha512h (utf8 input))"

record keypair =
  publicKeyPem :: string
  privateKeyPem :: string

text \<open>
  The attest branch of \<open>main\<close>, from \<open>fsp.stat\<close> to the attestation document.
  \<open>signEd25519\<close> is the parameter \<open>sign\<close>; the key pair is the one the key store
  returned. Creating the output directory, writing \<open>attestation.json\<close> and rendering the
  report are file-system effects that follow and are not part of the document.
\<close>

definition statSize :: "source \<Rightarrow> error + nat" where
  "statSize src =
     (case src of
        NoEntry \<Rightarrow> Inl IOError
      | NotRegular \<Rightarrow> Inr 0
      | Regular reads \<Rightarrow> Inr (length (concat reads))
      | Failing reads \<Rightarrow> Inr (length (concat reads)))"

definition attest ::
  "(buffer \<Rightarrow> buffer) \<Rightarrow> (buffer \<Rightarrow> buffer) \<Rightarrow> (rat \<Rightarrow> string) \<Rightarrow>
   (string \<Rightarrow> buffer \<Rightarrow> error + string) \<Rightarrow>
   run_context \<Rightarrow> keypair \<Rightarrow> source \<Rightarrow> rat \<Rightarrow> (error + json) option" where
  "attest blake2b sha512h fmt sign ctx kp src chunkSize =
     (case statSize src of
        Inl e \<Rightarrow> Some (Inl e)
      | Inr bytesOnDisk \<Rightarrow>
     (case streamDigestsAndLeaves blake2b sha512h src chunkSize of
        None \<Rightarrow> None
      | Some (Inl e) \<Rightarrow> Some (Inl e)
      | Some (Inr core) \<Rightarrow>
     (let leafCount = length (leaf_hexes core) in
      case sampledProofs blake2b (leaf_hexes core) (root (merkle core)) (sampleIndices leafCount) of
        Inl e \<Rightarrow> Some (Inl e)
      | Inr sampled \<Rightarrow>
     (let manifest = manifestOf ctx bytesOnDisk;
          manifest_sha512 = sha512Hex sha512h (JSON_stringify fmt manifest);
          signedPayload = signedPayloadOf manifest_sha512 core;
          signed_message_sha512 = sha512Hex sha512h (JSON_stringify fmt signedPayload)
      in case sign (privateKeyPem kp) (utf8 (JSON_stringify fmt signedPayload)) of
           Inl e \<Rightarrow> Some (Inl e)
         | Inr signature_b64 \<Rightarrow>
             Some (Inr (JObj
               [(''schema'', JStr ''resethiq.attestation.v1''),
                (''manifest'', manifest),
                (''canonicalization'',
                   JObj [(''spec_id'', JStr ''cdr-stream-v1''),
                         (''description'', JStr ''Deterministic fixed-size chunking over byte-stream; schema-aware canonicalization comes in v2.'')]),
                (''claims'', signedPayload),
                (''proofs'',
                   JObj [(''type'', JStr ''merkle_inclusion_v1''),
                         (''merkle_root'', JStr (root (merkle core))),
                         (''algorithm'', JStr ''blake2b512''),
                         (''sampled'', JArr (map sampledJson sampled))]),
                (''signature'',
                   JObj [(''algorithm'', JStr ''ed25519''),
                         (''public_key_pem'', JStr (publicKeyPem kp)),
                         (''signed_message_sha512'', JStr signed_message_sha512),
                         (''signature_b64'', JStr signature_b64)])]))))))"

text \<open>
  A recorded sample \<open>p\<close> is the sample of index \<open>i\<close>: the inclusion proof of leaf
  \<open>i\<close> together with the outcome of verifying it against \<open>rootHex\<close>.
\<close>

definition sampleOf ::
  "(buffer \<Rightarrow> buffer) \<Rightarrow> string list \<Rightarrow> string \<Rightarrow> int \<Rightarrow> sampled_proof \<Rightarrow> bool" where
  "sampleOf blake2b leaves rootHex i p \<longleftrightarrow>
     (case merkleProof blake2b leaves i of
        Inl e \<Rightarrow> False
      | Inr q \<Rightarrow>
          index p = i \<and> leaf_hex p = leaf_hex q \<and> siblings_hex p = siblings_hex q \<and>
          verifies p = verifyProof blake2b rootHex q)"

text \<open>
  The \<open>manifest_sha512\<close> an attestation document claims, and the digest of the
  canonical JSON (\<open>stableStringify\<close>) of the manifest it contains.
\<close>

definition claimedManifestDigest :: "json \<Rightarrow> json option" where
  "claimedManifestDigest a =
     (case getProp a ''claims'' of None \<Rightarrow> None | Some c \<Rightarrow> getProp c ''manifest_sha512'')"

definition canonicalManifestDigest :: "(buffer \<Rightarrow> buffer) \<Rightarrow> (rat \<Rightarrow> string) \<Rightarrow> json \<Rightarrow> json option" where
  "canonicalManifestDigest sha512h fmt a =
     (case getProp a ''manifest'' of
        None \<Rightarrow> None
      | Some m \<Rightarrow>
          (case stableStringify fmt m of
             Inl e \<Rightarrow> None
           | Inr canon \<Rightarrow> Some (JStr (sha512Hex sha512h canon))))"

section \<open>The verifier (\<open>verifyBundle\<close>)\<close>

text \<open>
  \<open>String(x)\<close> and \<open>Number(x)\<close> on a JSON-like value or \<open>undefined\<close> (\<open>None\<close>).
  An array is written as its elements joined by commas, \<open>null\<close> elements as the empty
  text. The conversion of a string to a number (StringToNumber of ECMA-262) belongs to
  the runtime and is the parameter \<open>strToNum\<close>.
\<close>

fun toStringJS :: "(rat \<Rightarrow> string) \<Rightarrow> json \<Rightarrow> string" where
  "toStringJS fmt JNull = ''null''"
| "toStringJS fmt (JBool b) = (if b then ''true'' else ''false'')"
| "toStringJS fmt (JNum n) =
     (case n of Finite q \<Rightarrow> fmt q | NaN \<Rightarrow> ''NaN''
      | PosInfinity \<Rightarrow> ''Infinity'' | NegInfinity \<Rightarrow> ''-Infinity'')"
| "toStringJS fmt (JStr s) = s"
| "toStringJS fmt (JArr xs) =
     join '','' (map (\<lambda>x. if x = JNull then [] else toStringJS fmt x) xs)"
| "toStringJS fmt (JObj ps) = ''[object Object]''"

definition toNumber :: "(string \<Rightarrow> jsnum) \<Rightarrow> (rat \<Rightarrow> string) \<Rightarrow> json option \<Rightarrow> jsnum" where
  "toNumber strToNum fmt v =
     (case v of
        None \<Rightarrow> NaN
      | Some JNull \<Rightarrow> Finite 0
      | Some (JBool b) \<Rightarrow> Finite (if b then 1 else 0)
      | Some (JNum n) \<Rightarrow> n
      | Some (JStr s) \<Rightarrow> strToNum s
      | Some (JArr xs) \<Rightarrow> strToNum (toStringJS fmt (JArr xs))
      | Some (JObj ps) \<Rightarrow> strToNum (toStringJS fmt (JObj ps)))"

text \<open>\<open>!Number.isFinite(chunkSize) || chunkSize <= 0\<close>, negated.\<close>

definition validChunkSize :: "jsnum \<Rightarrow> bool" where
  "validChunkSize n = (case n of Finite q \<Rightarrow> 0 < q | _ \<Rightarrow> False)"

text \<open>\<open>v ?? {}\<close>.\<close>

definition orEmptyObject :: "json option \<Rightarrow> json" where
  "orEmptyObject v = (case v of None \<Rightarrow> JObj [] | Some JNull \<Rightarrow> JObj [] | Some x \<Rightarrow> x)"

record verify_checks =
  file_blake2b_match :: bool
  file_sha512_match :: bool
  merkle_root_match :: bool
  leaf_count_match :: bool
  signed_message_sha512_match :: bool
  signature_valid :: bool

text \<open>
  The value \<open>verifyBundle\<close> returns: \<open>ok\<close>, \<open>bytes\<close>, \<open>expected\<close>, \<open>actual\<close> and
  \<open>checks\<close>. The two nested objects are flattened: \<open>expected\<close> is
  \<open>{file_digests, merkle}\<close> as found in the bundle and \<open>actual\<close> is
  \<open>{file_digests, merkle_root, leaf_count}\<close> as recomputed. From here on \<open>bytes\<close> is
  the field of the result, and the counter of the stream is \<open>stream_state.bytes\<close>.
\<close>

record verify_result =
  ok :: bool
  bytes :: nat
  expected_file_digests :: json
  expected_merkle :: json
  actual_file_digests :: file_digests
  actual_merkle_root :: string
  actual_leaf_count :: nat
  checks :: verify_checks

text \<open>\<open>Object.values(checks).every(Boolean)\<close>.\<close>

definition everyCheck :: "verify_checks \<Rightarrow> bool" where
  "everyCheck c =
     list_all (\<lambda>b. b)
       [file_blake2b_match c, file_sha512_match c, merkle_root_match c, leaf_count_match c,
        signed_message_sha512_match c, signature_valid c]"

text \<open>
  The signature check: the conjunction is evaluated from the left, and
  \<open>verifyEd25519\<close> (the parameter \<open>verify\<close>, which may throw) is reached only when the
  three tests before it hold.
\<close>

definition signatureCheck ::
  "(string \<Rightarrow> buffer \<Rightarrow> string \<Rightarrow> error + bool) \<Rightarrow> json \<Rightarrow> buffer \<Rightarrow> error + bool" where
  "signatureCheck verify sig message =
     (if getProp sig ''algorithm'' = Some (JStr ''ed25519'') then
        (case getProp sig ''public_key_pem'' of
           Some (JStr public_key_pem) \<Rightarrow>
             (case getProp sig ''signature_b64'' of
                Some (JStr signature_b64) \<Rightarrow> verify public_key_pem message signature_b64
              | _ \<Rightarrow> Inr False)
         | _ \<Rightarrow> Inr False)
      else Inr False)"

text \<open>
  The last part of \<open>verifyBundle\<close>: the six comparisons of the recomputed values with
  the bundle, and the result object.
\<close>

definition compareWithBundle ::
  "json \<Rightarrow> json \<Rightarrow> json \<Rightarrow> nat \<Rightarrow> file_digests \<Rightarrow> merkle_result \<Rightarrow> string \<Rightarrow> bool \<Rightarrow>
   verify_result" where
  "compareWithBundle expectedFile expectedMerkle sig bytesRead actualFile merkleRes
       signed_message_sha512 sigOk =
     (let cs =
        \<lparr>file_blake2b_match =
           (getProp expectedFile ''blake2b_512'' = Some (JStr (blake2b_512 actualFile))),
         file_sha512_match =
           (getProp expectedFile ''sha512'' = Some (JStr (sha512 actualFile))),
         merkle_root_match =
           (getProp expectedMerkle ''root'' = Some (JStr (root_hex merkleRes))),
         leaf_count_match =
           (getProp expectedMerkle ''leaf_count'' = Some (JNum (Finite (of_nat (leaf_count merkleRes))))),
         signed_message_sha512_match =
           (getProp sig ''signed_message_sha512'' = Some (JStr signed_message_sha512)),
         signature_valid = sigOk\<rparr>
      in \<lparr>ok = everyCheck cs,
          bytes = bytesRead,
          expected_file_digests = expectedFile,
          expected_merkle = expectedMerkle,
          actual_file_digests = actualFile,
          actual_merkle_root = root_hex merkleRes,
          actual_leaf_count = leaf_count merkleRes,
          checks = cs\<rparr>)"

text \<open>
  The result as the object that \<open>verifyBundle\<close> returns and the verify command prints
  with \<open>JSON.stringify\<close>: the property names of the object literals, in their order.
\<close>

definition checksJson :: "verify_checks \<Rightarrow> json" where
  "checksJson c =
     JObj [(''file_blake2b_match'', JBool (file_blake2b_match c)),
           (''file_sha512_match'', JBool (file_sha512_match c)),
           (''merkle_root_match'', JBool (merkle_root_match c)),
           (''leaf_count_match'', JBool (leaf_count_match c)),
           (''signed_message_sha512_match'', JBool (signed_message_sha512_match c)),
           (''signature_valid'', JBool (signature_valid c))]"

definition resultJson :: "verify_result \<Rightarrow> json" where
  "resultJson r =
     JObj [(''ok'', JBool (ok r)),
           (''bytes'', JNum (Finite (of_nat (bytes r)))),
           (''expected'',
              JObj [(''file_digests'', expected_file_digests r),
                    (''merkle'', expected_merkle r)]),
           (''actual'',
              JObj [(''file_digests'', fileDigestsJson (actual_file_digests r)),
                    (''merkle_root'', JStr (actual_merkle_root r)),
                    (''leaf_count'', JNum (Finite (of_nat (actual_leaf_count r))))]),
           (''checks'', checksJson (checks r))]"

text \<open>The names of the properties of an object, in their order.\<close>

definition keysOf :: "json \<Rightarrow> string list" where
  "keysOf x = (case x of JObj ps \<Rightarrow> map fst ps | _ \<Rightarrow> [])"

text \<open>
  The read stream of the verifier has the same \<open>data\<close> handler as the fingerprinter;
  opening anything but a readable regular file makes the stream fail. After the stream
  has ended, a non-empty buffer gives the final leaf.
\<close>

definition verifierStream ::
  "(buffer \<Rightarrow> buffer) \<Rightarrow> rat \<Rightarrow> source \<Rightarrow> (error + stream_state) option" where
  "verifierStream blake2b chunkSize src =
     (case src of
        Regular reads \<Rightarrow>
          (case readAll blake2b chunkSize initialState reads of
             None \<Rightarrow> None
           | Some st \<Rightarrow>
               Some (Inr (if length (buf st) > 0
                          then st\<lparr>leafHexes := leafHexes st @ [leafHash blake2b (buf st)],
                                  buf := []\<rparr>
                          else st)))
      | Failing reads \<Rightarrow>
          (case readAll blake2b chunkSize initialState reads of
             None \<Rightarrow> None
           | Some st \<Rightarrow> Some (Inl IOError))
      | _ \<Rightarrow> Some (Inl IOError))"

text \<open>
  \<open>verifyBundle\<close>. Its argument \<open>parsed\<close> is the outcome of reading and parsing the
  bundle file.
\<close>

definition verifyBundle ::
  "(buffer \<Rightarrow> buffer) \<Rightarrow> (buffer \<Rightarrow> buffer) \<Rightarrow> (rat \<Rightarrow> string) \<Rightarrow> (string \<Rightarrow> jsnum) \<Rightarrow>
   (string \<Rightarrow> buffer \<Rightarrow> string \<Rightarrow> error + bool) \<Rightarrow>
   (error + json) \<Rightarrow> source \<Rightarrow> (error + verify_result) option" where
  "verifyBundle blake2b sha512h fmt strToNum verify parsed src =
     (case parsed of
        Inl e \<Rightarrow> Some (Inl e)
      | Inr a \<Rightarrow>
     (if a = JNull then Some (Inl TypeError)
      else
     (let claims = orEmptyObject (getProp a ''claims'');
          merkle = orEmptyObject (getProp claims ''merkle'');
          expectedFile = orEmptyObject (getProp claims ''file_digests'');
          sig = orEmptyObject (getProp a ''signature'')
      in case toNumber strToNum fmt (getProp merkle ''chunk_size'') of
           Finite chunkSize \<Rightarrow>
             (if chunkSize \<le> 0 then Some (Inl InvalidChunkSize)
              else
                (case verifierStream blake2b chunkSize src of
                   None \<Rightarrow> None
                 | Some (Inl e) \<Rightarrow> Some (Inl e)
                 | Some (Inr st) \<Rightarrow>
                     (let actualFile =
                            \<lparr>blake2b_512 = toHex (blake2b (fileBlake2b st)),
                             sha512 = toHex (sha512h (fileSha512 st))\<rparr>
                      in case merkleRootFromLeafHex blake2b (leafHexes st) of
                           Inl e \<Rightarrow> Some (Inl e)
                         | Inr merkleRes \<Rightarrow>
                             (let signed_message_sha512 =
                                    sha512Hex sha512h (JSON_stringify fmt claims)
                              in case signatureCheck verify sig
                                        (utf8 (JSON_stringify fmt claims)) of
                                   Inl e \<Rightarrow> Some (Inl e)
                                 | Inr sigOk \<Rightarrow>
                                     Some (Inr (compareWithBundle expectedFile merkle sig
                                                  (stream_state.bytes st) actualFile merkleRes
                                                  signed_message_sha512 sigOk))))))
         | _ \<Rightarrow> Some (Inl InvalidChunkSize))))"

section \<open>The command-line entry point (\<open>main\<close>)\<close>

text \<open>\<open>args.indexOf(name)\<close> and \<open>getFlag\<close>; \<open>None\<close> is \<open>undefined\<close>.\<close>

fun indexOf :: "string list \<Rightarrow> string \<Rightarrow> int" where
  "indexOf [] name = -1"
| "indexOf (a # args) name =
     (if a = name then 0 else (let i = indexOf args name in if i < 0 then -1 else i + 1))"

definition getFlag :: "string list \<Rightarrow> string \<Rightarrow> string option \<Rightarrow> string option" where
  "getFlag args name def =
     (let i = indexOf args name in if i \<ge> 0 then elemAt args (i + 1) else def)"

text \<open>
  A string or \<open>undefined\<close> used as a condition: \<open>undefined\<close> and the empty string
  are falsy (\<open>None\<close>).
\<close>

definition truthy :: "string option \<Rightarrow> string option" where
  "truthy s = (case s of None \<Rightarrow> None | Some t \<Rightarrow> if t = [] then None else Some t)"

text \<open>
  What the process depends on besides its arguments: the hash functions, the runtime's
  number conversions, signing and signature verification, the files behind the paths, the
  outcome of reading and parsing a bundle, the run context and the key pair.
\<close>

record runtime =
  rt_blake2b :: "buffer \<Rightarrow> buffer"
  rt_sha512 :: "buffer \<Rightarrow> buffer"
  rt_numToStr :: "rat \<Rightarrow> string"
  rt_strToNum :: "string \<Rightarrow> jsnum"
  rt_sign :: "string \<Rightarrow> buffer \<Rightarrow> error + string"
  rt_verify :: "string \<Rightarrow> buffer \<Rightarrow> string \<Rightarrow> error + bool"
  rt_file :: "string \<Rightarrow> source"
  rt_bundle :: "string \<Rightarrow> error + json"
  rt_context :: run_context
  rt_keys :: keypair

text \<open>What the process prints or writes before it ends.\<close>

datatype outcome =
    Usage
  | InvalidChunk
  | HashJson fingerprint
  | AttestationJson json
  | VerifyJson verify_result
  | ErrorMessage error

text \<open>
  \<open>main\<close> with the handler of its rejection: the output and the exit status, or
  \<open>None\<close> when the process never ends. A command that returns ends with status 0.
\<close>

definition main :: "runtime \<Rightarrow> string list \<Rightarrow> (outcome \<times> nat) option" where
  "main rt args =
     (case truthy (elemAt args 0) of
        None \<Rightarrow> Some (Usage, 1)
      | Some cmd \<Rightarrow>
     (if cmd = ''verify'' then
        (case truthy (getFlag args ''--bundle'' None) of
           None \<Rightarrow> Some (Usage, 1)
         | Some bundlePath \<Rightarrow>
        (case truthy (getFlag args ''--file'' None) of
           None \<Rightarrow> Some (Usage, 1)
         | Some filePath \<Rightarrow>
        (case verifyBundle (rt_blake2b rt) (rt_sha512 rt) (rt_numToStr rt) (rt_strToNum rt)
                (rt_verify rt) (rt_bundle rt bundlePath) (rt_file rt filePath) of
           None \<Rightarrow> None
         | Some (Inl e) \<Rightarrow> Some (ErrorMessage e, 2)
         | Some (Inr res) \<Rightarrow> Some (VerifyJson res, if ok res then 0 else 3))))
      else
        (case truthy (elemAt args 1) of
           None \<Rightarrow> Some (Usage, 1)
         | Some filePath \<Rightarrow>
        (let chunkSize =
               (case getFlag args ''--chunk'' (Some ''4194304'') of
                  None \<Rightarrow> NaN
                | Some s \<Rightarrow> rt_strToNum rt s)
         in if \<not> validChunkSize chunkSize then Some (InvalidChunk, 1)
            else
              (case chunkSize of
                 Finite c \<Rightarrow>
                   (if cmd = ''hash'' then
                      (case streamDigestsAndLeaves (rt_blake2b rt) (rt_sha512 rt)
                              (rt_file rt filePath) c of
                         None \<Rightarrow> None
                       | Some (Inl e) \<Rightarrow> Some (ErrorMessage e, 2)
                       | Some (Inr r) \<Rightarrow> Some (HashJson r, 0))
                    else if cmd = ''attest'' then
                      (case attest (rt_blake2b rt) (rt_sha512 rt) (rt_numToStr rt) (rt_sign rt)
                              (rt_context rt) (rt_keys rt) (rt_file rt filePath) c of
                         None \<Rightarrow> None
                       | Some (Inl e) \<Rightarrow> Some (ErrorMessage e, 2)
                       | Some (Inr a) \<Rightarrow> Some (AttestationJson a, 0))
                    else Some (Usage, 1))
               | _ \<Rightarrow> Some (InvalidChunk, 1))))))"

text \<open>
  A small runtime for concrete evaluations: the stand-in hash, a five-byte file
  \<open>data.bin\<close> delivered in two reads, the bundle \<open>attestation.json\<close> that
  \<open>attest\<close> produces for that file with chunk size 2, and a bundle \<open>other.json\<close>
  that carries a chunk size only.
\<close>

definition exampleContext :: run_context where
  "exampleContext =
     \<lparr>run_id = ''r'', created_at = ''t'', filename = ''data.bin'', node = ''v20'',
      platform = ''linux'', arch = ''x64''\<rparr>"

definition exampleRuntime :: runtime where
  "exampleRuntime =
     \<lparr>rt_blake2b = toyHash,
      rt_sha512 = toyHash,
      rt_numToStr = decimal,
      rt_strToNum =
        (\<lambda>s. if s = ''0.5'' then Finite (1 / 2)
             else if s = ''2.5'' then Finite (5 / 2)
             else if s = ''2'' then Finite 2
             else NaN),
      rt_sign = (\<lambda>key message. Inr ''sig''),
      rt_verify = (\<lambda>key message signature. Inr (signature = ''sig'')),
      rt_file = (\<lambda>p. if p = ''data.bin'' then Regular [[1, 2, 3], [4, 5]] else NoEntry),
      rt_bundle =
        (\<lambda>p. if p = ''attestation.json'' then
               (case attest toyHash toyHash decimal (\<lambda>key message. Inr ''sig'') exampleContext
                       \<lparr>publicKeyPem = ''pub'', privateKeyPem = ''priv''\<rparr>
                       (Regular [[1, 2, 3], [4, 5]]) 2 of
                  Some (Inr a) \<Rightarrow> Inr a
                | _ \<Rightarrow> Inl IOError)
             else if p = ''other.json'' then
               Inr (JObj [(''claims'', JObj [(''merkle'', JObj [(''chunk_size'', JNum (Finite 2))])])])
             else Inl IOError),
      rt_context = exampleContext,
      rt_keys = \<lparr>publicKeyPem = ''pub'', privateKeyPem = ''priv''\<rparr>\<rparr>"

text \<open>
  The same runtime with one more bundle, \<open>forged.json\<close>: the attestation of
  \<open>data.bin\<close> in which the signature has been replaced by one that the verification
  function of the runtime does not accept.
\<close>

definition forgedRuntime :: runtime where
  "forgedRuntime =
     exampleRuntime
       \<lparr>rt_bundle :=
          (\<lambda>p. if p = ''forged.json'' then
                 (case rt_bundle exampleRuntime ''attestation.json'' of
                    Inr (JObj ps) \<Rightarrow>
                      (case map_of ps ''signature'' of
                         Some (JObj sg) \<Rightarrow>
                           Inr (JObj (setProp ps ''signature''
                                  (JObj (setProp sg ''signature_b64'' (JStr ''forged'')))))
                       | _ \<Rightarrow> Inl IOError)
                  | _ \<Rightarrow> Inl IOError)
               else rt_bundle exampleRuntime p)\<rparr>"

section \<open>Transparency log (src/integrity/kernel/transparencyLog.ts)\<close>









section \<open>Values with identity: arrays and objects in a store\<close>

text \<open>
  A JavaScript array or object is a reference, and a structure may contain itself. A store
  maps each reference to the elements of the array or the properties of the object it
  names; the other values are immediate.
\<close>

datatype jsval = VNull | VBool bool | VNum jsnum | VStr string | VRef nat

datatype cell = ArrayCell "jsval list" | ObjectCell "(string \<times> jsval) list"

type_synonym store = "nat \<Rightarrow> cell"

text \<open>
  \<open>stableStringify\<close> on a value in a store. The first argument bounds the depth of the
  recursion, as the call stack of the runtime does: when it is used up the runtime throws
  a RangeError.
\<close>

fun stableStringifyAt :: "nat \<Rightarrow> (rat \<Rightarrow> string) \<Rightarrow> store \<Rightarrow> jsval \<Rightarrow> error + string" where
  "stableStringifyAt 0 fmt st x = Inl RangeError"
| "stableStringifyAt (Suc depth) fmt st x =
     (case x of
        VNull \<Rightarrow> Inr ''null''
      | VBool b \<Rightarrow> Inr (if b then ''true'' else ''false'')
      | VNum n \<Rightarrow> Inr (numberToJSON fmt n)
      | VStr s \<Rightarrow> Inr (quote s)
      | VRef r \<Rightarrow>
          (case st r of
             ArrayCell xs \<Rightarrow>
               (case mapE (stableStringifyAt depth fmt st) xs of
                  Inl e \<Rightarrow> Inl e
                | Inr parts \<Rightarrow> Inr (''['' @ join '','' parts @ '']''))
           | ObjectCell ps \<Rightarrow>
               (let keys = sort (map fst ps) in
                case mapE (\<lambda>k. case map_of ps k of
                                   None \<Rightarrow> Inl TypeError
                                 | Some v \<Rightarrow>
                                     (case stableStringifyAt depth fmt st v of
                                        Inl e \<Rightarrow> Inl e
                                      | Inr s \<Rightarrow> Inr (quote k @ '':'' @ s))) keys of
                  Inl e \<Rightarrow> Inl e
                | Inr parts \<Rightarrow> Inr (''{'' @ join '','' parts @ ''}''))))"

text \<open>
  A value in a store denotes a JSON-like value when following the references unfolds it
  into that finite tree.
\<close>

inductive denotes :: "store \<Rightarrow> jsval \<Rightarrow> json \<Rightarrow> bool" where
  denotesNull: "denotes st VNull JNull"
| denotesBool: "denotes st (VBool b) (JBool b)"
| denotesNum: "denotes st (VNum n) (JNum n)"
| denotesStr: "denotes st (VStr s) (JStr s)"
| denotesArr: "st r = ArrayCell xs \<Longrightarrow> list_all2 (denotes st) xs ts \<Longrightarrow> denotes st (VRef r) (JArr ts)"
| denotesObj:
    "st r = ObjectCell ps \<Longrightarrow> map fst ps = map fst qs \<Longrightarrow>
     list_all2 (denotes st) (map snd ps) (map snd qs) \<Longrightarrow> denotes st (VRef r) (JObj qs)"

text \<open>
  A value is cyclic when an endless chain of elements or property values starts from it;
  in a store with finitely many cells such a chain runs through a cycle.
\<close>

coinductive cyclic :: "store \<Rightarrow> jsval \<Rightarrow> bool" where
  cyclicArr: "st r = ArrayCell xs \<Longrightarrow> x \<in> set xs \<Longrightarrow> cyclic st x \<Longrightarrow> cyclic st (VRef r)"
| cyclicObj: "st r = ObjectCell ps \<Longrightarrow> map_of ps k = Some v \<Longrightarrow> cyclic st v \<Longrightarrow> cyclic st (VRef r)"

section \<open>Properties of the Merkle engine\<close>

lemma hexVal_hexDigit_table: "\<forall>n \<in> set [0..<16]. hexVal (hexDigit n) = Some n"
  by code_simp

lemma hexVal_hexDigit: "n < 16 \<Longrightarrow> hexVal (hexDigit n) = Some n"
  using hexVal_hexDigit_table by simp

lemma fromHex_toHex: "fromHex (toHex bs) = bs"
proof (induction bs)
  case Nil
  then show ?case by (simp add: toHex_def)
next
  case (Cons b bs)
  have d: "unat b div 16 < 16"
    using unsigned_less [of b, where ?'a = nat] by (simp add: less_mult_imp_div_less)
  have m: "unat b mod 16 < 16" by simp
  from Cons show ?case
    by (simp add: toHex_def hexVal_hexDigit [OF d] hexVal_hexDigit [OF m])
qed

lemma remainder_nonneg [simp]: "0 \<le> a \<Longrightarrow> remainder a 2 = a mod 2"
  by (simp add: remainder_def)

lemma nth_nextLevel:
  "k < length (nextLevel h level) \<Longrightarrow>
   nextLevel h level ! k =
     h (level ! (2 * k) @
        (if 2 * k + 1 < length level then level ! (2 * k + 1) else level ! (2 * k)))"
proof (induction h level arbitrary: k rule: nextLevel.induct)
  case (1 h)
  then show ?case by simp
next
  case (2 h left)
  then show ?case by simp
next
  case (3 h left right rest)
  then show ?case by (cases k) auto
qed

lemma nextLevel_nonempty: "level \<noteq> [] \<Longrightarrow> nextLevel h level \<noteq> []"
  by (cases "(h, level)" rule: nextLevel.cases) auto

lemma reduceLevel_single: "level \<noteq> [] \<Longrightarrow> length (reduceLevel h level) = 1"
proof (induction h level rule: reduceLevel.induct)
  case (1 h level)
  show ?case
  proof (cases "length level > 1")
    case True
    with 1 show ?thesis by (subst reduceLevel.simps) (simp add: nextLevel_nonempty)
  next
    case False
    with 1 have "length level = 1" by (cases level) auto
    then show ?thesis by (subst reduceLevel.simps) simp
  qed
qed

text \<open>One level of the proof path: hashing a node with its sibling, oriented by the
  parity of its index, gives its parent on the next level.\<close>

lemma sibling_step:
  assumes "n < length level"
  shows "\<exists>s. siblingOf level (int n) = Some s \<and>
             (if int n mod 2 = 1 then h (s @ level ! n) else h (level ! n @ s)) =
             nextLevel h level ! (n div 2)"
proof -
  have k: "n div 2 < length (nextLevel h level)"
    using assms by (auto simp: length_nextLevel)
  show ?thesis
  proof (cases "n mod 2 = 1")
    case True
    then have odd: "int n mod 2 = 1" by presburger
    have e: "2 * (n div 2) = n - 1" "2 * (n div 2) + 1 = n" using True by presburger+
    have "nat (int n - 1) = n - 1" by simp
    moreover have "0 \<le> int n - 1" using True by presburger
    ultimately have sib: "siblingOf level (int n) = Some (level ! (n - 1))"
      using assms odd by (simp add: siblingOf_def elemAt_def)
    have "0 < n" using True by presburger
    then have "Suc (n - Suc 0) = n" by simp
    with sib show ?thesis
      using odd assms by (simp add: nth_nextLevel [OF k] e)
  next
    case False
    then have even: "int n mod 2 \<noteq> 1" by presburger
    have e: "2 * (n div 2) = n" using False by presburger
    have nn: "nat (int n + 1) = n + 1" by simp
    show ?thesis
    proof (cases "n + 1 < length level")
      case True
      then have "siblingOf level (int n) = Some (level ! (n + 1))"
        using even by (simp add: siblingOf_def elemAt_def nn del: of_nat_add)
      then show ?thesis using even True by (simp add: nth_nextLevel [OF k] e)
    next
      case False
      then have "siblingOf level (int n) = Some (level ! n)"
        using even assms by (simp add: siblingOf_def elemAt_def)
      then show ?thesis using even False by (simp add: nth_nextLevel [OF k] e)
    qed
  qed
qed

lemma proof_path:
  "n < length level \<Longrightarrow>
   \<exists>sibs. collectSiblings (levelsFrom h level) (int n) = Inr sibs \<and>
          reduceLevel h level = [verifyLoop h (level ! n) (int n) sibs]"
proof (induction h level arbitrary: n rule: levelsFrom.induct)
  case (1 h level)
  show ?case
  proof (cases "length level > 1")
    case False
    with 1(2) have len: "length level = 1" by (cases level) auto
    with 1(2) have i0: "n = 0" by simp
    from len obtain x where lv: "level = [x]" by (cases level) auto
    show ?thesis
      by (subst levelsFrom.simps, subst reduceLevel.simps) (simp add: lv i0)
  next
    case True
    let ?next = "nextLevel h level"
    have k: "n div 2 < length ?next" using 1(2) by (auto simp: length_nextLevel)
    from 1(1) [OF True k] obtain rest where
      rest: "collectSiblings (levelsFrom h ?next) (int (n div 2)) = Inr rest"
      and red: "reduceLevel h ?next = [verifyLoop h (?next ! (n div 2)) (int (n div 2)) rest]"
      by blast
    have half: "int n div 2 = int (n div 2)" by simp
    have up: "levelsFrom h ?next \<noteq> []" by (subst levelsFrom.simps) simp
    then obtain u us where us: "levelsFrom h ?next = u # us" by (cases "levelsFrom h ?next") auto
    from sibling_step [OF 1(2), of h] obtain s where
      s: "siblingOf level (int n) = Some s"
      and par: "(if int n mod 2 = 1 then h (s @ level ! n) else h (level ! n @ s)) = ?next ! (n div 2)"
      by blast
    have lv: "levelsFrom h level = level # u # us"
      using True us by (subst levelsFrom.simps) simp
    have cs: "collectSiblings (levelsFrom h level) (int n) = Inr (toHex s # rest)"
      using s rest us by (simp add: lv half)
    have rd: "reduceLevel h level = reduceLevel h ?next"
      using True by (subst reduceLevel.simps) simp
    have vl: "verifyLoop h (level ! n) (int n) (toHex s # rest) =
              verifyLoop h (?next ! (n div 2)) (int (n div 2)) rest"
      using par by (simp add: fromHex_toHex Let_def half)
    show ?thesis using cs rd red vl by simp
  qed
qed

lemma buildLevels_nonempty_leaves:
  "leafHex \<noteq> [] \<Longrightarrow> buildLevels h leafHex = levelsFrom h (map fromHex leafHex)"
  by (simp add: buildLevels_def)

lemma merkleProof_verifies:
  assumes "leaves \<noteq> []" and "0 \<le> i" and "i < int (length leaves)"
  shows "\<exists>r p. merkleRootFromLeafHex h leaves = Inr r \<and>
               merkleProof h leaves i = Inr p \<and>
               index p = i \<and> leaf_hex p = leaves ! nat i \<and>
               verifyProof h (root_hex r) p"
proof -
  let ?level = "map fromHex leaves"
  obtain n where n: "i = int n" using assms(2) nonneg_int_cases by blast
  have nlt: "n < length ?level" using assms(3) n by simp
  from proof_path [OF nlt, of h] obtain sibs where
    sibs: "collectSiblings (levelsFrom h ?level) (int n) = Inr sibs"
    and red: "reduceLevel h ?level = [verifyLoop h (?level ! n) (int n) sibs]"
    by blast
  have lf: "?level ! n = fromHex (leaves ! n)" using nlt by simp
  have r: "merkleRootFromLeafHex h leaves =
           Inr \<lparr>root_hex = toHex (verifyLoop h (fromHex (leaves ! n)) (int n) sibs),
                leaf_count = length leaves\<rparr>"
    using assms(1) red lf by (simp add: merkleRootFromLeafHex_def elemAt_def)
  have p: "merkleProof h leaves i =
           Inr \<lparr>index = i, leaf_hex = leaves ! nat i, siblings_hex = sibs\<rparr>"
    using assms sibs n by (simp add: merkleProof_def buildLevels_nonempty_leaves)
  show ?thesis
    using r p n by (simp add: verifyProof_def)
qed

text \<open>
  Claim C1. For every non-empty list of leaf hashes and every index \<open>i\<close> with
  \<open>0 \<le> i < length leaves\<close>, the root and the inclusion proof are both produced and
  \<open>verifyProof\<close> accepts the proof against the root; levels of odd size, where the last
  node is paired with itself, are included. The proof carries the index and the leaf.
\<close>

theorem proof_verifies:
  assumes "leaves \<noteq> []" and "0 \<le> i" and "i < int (length leaves)"
  shows "\<exists>r p. merkleRootFromLeafHex h leaves = Inr r \<and>
               merkleProof h leaves i = Inr p \<and>
               index p = i \<and> leaf_hex p = leaves ! nat i \<and>
               verifyProof h (root_hex r) p"
  using assms by (rule merkleProof_verifies)

theorem proof_verifies_witness:
  "[''0a'', ''0b'', ''0c''] \<noteq> [] \<and> (0::int) \<le> 2 \<and> (2::int) < int (length [''0a'', ''0b'', ''0c'']) \<and>
   (\<exists>r p. merkleRootFromLeafHex toyHash [''0a'', ''0b'', ''0c''] = Inr r \<and>
          merkleProof toyHash [''0a'', ''0b'', ''0c''] 2 = Inr p \<and>
          index p = 2 \<and> leaf_hex p = [''0a'', ''0b'', ''0c''] ! nat 2 \<and>
          verifyProof toyHash (root_hex r) p)"
  using proof_verifies [of "[''0a'', ''0b'', ''0c'']" 2 toyHash] by simp

text \<open>
  Claim C4. On the empty leaf list \<open>merkleRootFromLeafHex\<close> returns the hex encoding of
  the hash of the ASCII bytes of \<open>resethiq:empty\<close> as \<open>root_hex\<close>, and
  \<open>leaf_count = 0\<close>.
\<close>

theorem empty_root_sentinel:
  "merkleRootFromLeafHex h [] =
     Inr \<lparr>root_hex = toHex (h (map (\<lambda>c. word_of_nat (of_char c)) ''resethiq:empty'')),
          leaf_count = 0\<rparr>"
  by (simp add: merkleRootFromLeafHex_def emptyRoot_def utf8_def)

section \<open>Properties of the canonical serialiser and of receipts\<close>

lemma sort_keys_eq:
  "distinct xs \<Longrightarrow> distinct ys \<Longrightarrow> set xs = set ys \<Longrightarrow> sort xs = sort (ys :: string list)"
  by (metis distinct_sort set_sort sorted_sort sorted_distinct_set_unique)

lemma mapE_list_all2:
  "list_all2 (\<lambda>x y. f x = g y) xs ys \<Longrightarrow> mapE f xs = mapE g ys"
  by (induction xs ys rule: list_all2_induct) (auto split: sum.splits)

lemma stable_same: "sameValue a b \<Longrightarrow> stableStringify fmt a = stableStringify fmt b"
proof (induction rule: sameValue.induct)
  case (sameArr xs ys)
  then have "list_all2 (\<lambda>x y. stableStringify fmt x = stableStringify fmt y) xs ys"
    by (simp add: list_all2_conv_all_nth)
  then have "mapE (stableStringify fmt) xs = mapE (stableStringify fmt) ys"
    by (rule mapE_list_all2)
  then show ?case by simp
next
  case (sameObj ps qs)
  have keys: "sort (map fst ps) = sort (map fst qs)"
    using sameObj(1,2,3) by (rule sort_keys_eq)
  have "mapE (\<lambda>k. case map_of ps k of None \<Rightarrow> Inl TypeError
                  | Some v \<Rightarrow> (case stableStringify fmt v of Inl e \<Rightarrow> Inl e
                                | Inr s \<Rightarrow> Inr (quote k @ '':'' @ s))) (sort (map fst ps)) =
        mapE (\<lambda>k. case map_of qs k of None \<Rightarrow> Inl TypeError
                  | Some v \<Rightarrow> (case stableStringify fmt v of Inl e \<Rightarrow> Inl e
                                | Inr s \<Rightarrow> Inr (quote k @ '':'' @ s))) (sort (map fst qs))"
  proof (rule mapE_cong [OF keys])
    fix k assume "k \<in> set (sort (map fst qs))"
    then have "k \<in> set (map fst ps)" using sameObj(3) by simp
    with sameObj(4) obtain v w where
      "map_of ps k = Some v" "map_of qs k = Some w" "stableStringify fmt v = stableStringify fmt w"
      by blast
    then show "(case map_of ps k of None \<Rightarrow> Inl TypeError
                  | Some v \<Rightarrow> (case stableStringify fmt v of Inl e \<Rightarrow> Inl e
                                | Inr s \<Rightarrow> Inr (quote k @ '':'' @ s))) =
               (case map_of qs k of None \<Rightarrow> Inl TypeError
                  | Some v \<Rightarrow> (case stableStringify fmt v of Inl e \<Rightarrow> Inl e
                                | Inr s \<Rightarrow> Inr (quote k @ '':'' @ s)))"
      by simp
  qed
  then show ?case by (simp add: Let_def)
qed simp_all


lemma keys_setProp: "fst ` set (setProp ps k v) = insert k (fst ` set ps)"
  by (induction ps k v rule: setProp.induct) auto

lemma distinct_setProp: "distinct (map fst ps) \<Longrightarrow> distinct (map fst (setProp ps k v))"
  by (induction ps k v rule: setProp.induct) (auto simp: keys_setProp)

lemma map_of_setProp: "map_of (setProp ps k v) = (map_of ps)(k \<mapsto> v)"
  by (induction ps k v rule: setProp.induct) auto

lemma keys_spread: "fst ` set (spread base extra) = fst ` set base \<union> fst ` set extra"
  unfolding spread_def
proof (induction extra arbitrary: base)
  case Nil
  then show ?case by simp
next
  case (Cons p extra)
  obtain k v where p: "p = (k, v)" by (cases p)
  show ?case
    by (simp add: p Cons.IH keys_setProp)
qed

lemma distinct_spread: "distinct (map fst base) \<Longrightarrow> distinct (map fst (spread base extra))"
  unfolding spread_def
  by (induction extra arbitrary: base) (auto simp: distinct_setProp)

lemma map_of_spread:
  "distinct (map fst extra) \<Longrightarrow>
   map_of (spread base extra) k =
     (case map_of extra k of Some v \<Rightarrow> Some v | None \<Rightarrow> map_of base k)"
  unfolding spread_def
proof (induction extra arbitrary: base)
  case Nil
  then show ?case by simp
next
  case (Cons p extra)
  obtain k' v' where p: "p = (k', v')" by (cases p)
  from Cons.prems p have nk: "map_of extra k' = None" and d: "distinct (map fst extra)"
    by (auto simp: map_of_eq_None_iff)
  show ?case
    using Cons.IH [OF d, of "setProp base k' v'"] nk
    by (auto simp: p map_of_setProp split: option.splits)
qed

lemma sameObjD:
  "sameValue (JObj d) (JObj d') \<Longrightarrow>
   distinct (map fst d) \<and> distinct (map fst d') \<and> set (map fst d) = set (map fst d') \<and>
   (\<forall>k \<in> set (map fst d). \<exists>v w. map_of d k = Some v \<and> map_of d' k = Some w \<and> sameValue v w)"
  by (erule sameValue.cases) simp_all

lemma same_receiptBase:
  assumes "sameValue (JObj d) (JObj d')"
  shows "sameValue (JObj (receiptBase d)) (JObj (receiptBase d'))"
proof -
  from sameObjD [OF assms] have dd: "distinct (map fst d)" "distinct (map fst d')"
    and ks: "set (map fst d) = set (map fst d')"
    and vs: "\<forall>k \<in> set (map fst d). \<exists>v w. map_of d k = Some v \<and> map_of d' k = Some w \<and> sameValue v w"
    by blast+
  let ?b = "[(''receipt_version'', JStr ''1'')]"
  have "\<exists>v w. map_of (receiptBase d) k = Some v \<and> map_of (receiptBase d') k = Some w \<and> sameValue v w"
    if k: "k \<in> set (map fst (receiptBase d))" for k
  proof (cases "k \<in> set (map fst d)")
    case True
    with vs obtain v w where "map_of d k = Some v" "map_of d' k = Some w" "sameValue v w"
      by blast
    then show ?thesis
      by (simp add: receiptBase_def map_of_spread [OF dd(1)] map_of_spread [OF dd(2)])
  next
    case False
    then have "k \<notin> fst ` set d" "k \<notin> fst ` set d'"
      using ks by simp_all
    then have n: "map_of d k = None" "map_of d' k = None"
      by (simp_all add: map_of_eq_None_iff)
    from k False have "k = ''receipt_version''"
      by (auto simp: receiptBase_def keys_spread)
    then show ?thesis
      using n by (simp add: receiptBase_def map_of_spread [OF dd(1)] map_of_spread [OF dd(2)] sameStr)
  qed
  moreover have "distinct (map fst (receiptBase d))" "distinct (map fst (receiptBase d'))"
    by (simp_all add: receiptBase_def distinct_spread)
  moreover have "set (map fst (receiptBase d)) = set (map fst (receiptBase d'))"
    using ks by (simp add: receiptBase_def keys_spread)
  ultimately show ?thesis by (intro sameObj) blast+
qed

text \<open>
  Claim C10. If two JSON-like values denote the same finite map at every object node,
  whatever the insertion order of the keys, then \<open>stableStringify\<close> returns the same
  string for both, \<open>hashJSON\<close> returns the same digest, and \<open>createReceipt\<close> on two
  such data objects yields the same \<open>receipt_hash\<close>.
\<close>

theorem key_order_independent:
  assumes "sameValue a b"
  shows "stableStringify fmt a = stableStringify fmt b \<and>
         hashJSON sha256 fmt a = hashJSON sha256 fmt b \<and>
         (\<forall>d d'. a = JObj d \<and> b = JObj d' \<longrightarrow>
            map_sum id (\<lambda>r. getProp r ''receipt_hash'') (createReceipt sha256 fmt d) =
            map_sum id (\<lambda>r. getProp r ''receipt_hash'') (createReceipt sha256 fmt d'))"
proof -
  have s: "stableStringify fmt a = stableStringify fmt b"
    using assms by (rule stable_same)
  have r: "map_sum id (\<lambda>r. getProp r ''receipt_hash'') (createReceipt sha256 fmt d) =
           map_sum id (\<lambda>r. getProp r ''receipt_hash'') (createReceipt sha256 fmt d')"
    if "a = JObj d" "b = JObj d'" for d d'
  proof -
    have "stableStringify fmt (JObj (receiptBase d)) = stableStringify fmt (JObj (receiptBase d'))"
      using assms that by (intro stable_same same_receiptBase) simp
    then have "hashJSON sha256 fmt (JObj (receiptBase d)) = hashJSON sha256 fmt (JObj (receiptBase d'))"
      by (simp add: hashJSON_def)
    then show ?thesis
      by (auto simp: createReceipt_def Let_def getProp_def map_of_setProp split: sum.splits)
  qed
  from s r show ?thesis by (simp add: hashJSON_def)
qed

theorem key_order_independent_witness:
  "sameValue (JObj [(''engine'', JStr ''e2''), (''run_id'', JStr ''r1'')])
             (JObj [(''run_id'', JStr ''r1''), (''engine'', JStr ''e2'')]) \<and>
   stableStringify decimal (JObj [(''engine'', JStr ''e2''), (''run_id'', JStr ''r1'')]) =
   stableStringify decimal (JObj [(''run_id'', JStr ''r1''), (''engine'', JStr ''e2'')]) \<and>
   map_sum id (\<lambda>r. getProp r ''receipt_hash'')
     (createReceipt toyHash decimal [(''engine'', JStr ''e2''), (''run_id'', JStr ''r1'')]) =
   map_sum id (\<lambda>r. getProp r ''receipt_hash'')
     (createReceipt toyHash decimal [(''run_id'', JStr ''r1''), (''engine'', JStr ''e2'')])"
proof -
  have sv: "sameValue (JObj [(''engine'', JStr ''e2''), (''run_id'', JStr ''r1'')])
                      (JObj [(''run_id'', JStr ''r1''), (''engine'', JStr ''e2'')])"
    by (rule sameObj) (auto intro: sameStr)
  from key_order_independent [OF sv, of decimal toyHash] sv show ?thesis by blast
qed

lemma mapE_total: "(\<And>x. x \<in> set xs \<Longrightarrow> \<exists>y. f x = Inr y) \<Longrightarrow> \<exists>ys. mapE f xs = Inr ys"
proof (induction xs)
  case Nil
  then show ?case by simp
next
  case (Cons x xs)
  from Cons.prems [of x] obtain y where y: "f x = Inr y" by auto
  from Cons.IH Cons.prems obtain ys where ys: "mapE f xs = Inr ys" by auto
  show ?case by (simp add: y ys)
qed

lemma stableStringify_returns: "\<exists>s. stableStringify fmt v = Inr s"
proof (induction v)
  case (JArr xs)
  then have "\<exists>parts. mapE (stableStringify fmt) xs = Inr parts"
    by (intro mapE_total) auto
  then show ?case by auto
next
  case (JObj ps)
  let ?f = "\<lambda>k. case map_of ps k of None \<Rightarrow> Inl TypeError
                  | Some v \<Rightarrow> (case stableStringify fmt v of Inl e \<Rightarrow> Inl e
                                | Inr s \<Rightarrow> Inr (quote k @ '':'' @ s))"
  have "\<exists>y. ?f k = Inr y" if "k \<in> set (sort (map fst ps))" for k
  proof -
    from that have "k \<in> fst ` set ps" by simp
    then obtain v where v: "map_of ps k = Some v"
      by (metis map_of_eq_None_iff not_None_eq)
    then have "(k, v) \<in> set ps" by (rule map_of_SomeD)
    then have "\<exists>s. stableStringify fmt v = Inr s"
      using JObj.IH [of "(k, v)" v] by simp
    then show ?thesis using v by auto
  qed
  then have "\<exists>parts. mapE ?f (sort (map fst ps)) = Inr parts"
    by (rule mapE_total)
  then show ?case by (auto simp: Let_def)
qed simp_all

lemma mapE_Inl: "mapE f xs = Inl e \<Longrightarrow> \<exists>x \<in> set xs. f x = Inl e"
  by (induction xs) (auto split: sum.splits)

lemma mapE_fails: "x \<in> set xs \<Longrightarrow> f x = Inl e \<Longrightarrow> \<exists>e'. mapE f xs = Inl e'"
  by (induction xs) (auto split: sum.splits)

lemma stableStringifyAt_error:
  "stableStringifyAt depth fmt st x = Inl e \<Longrightarrow> e = RangeError"
proof (induction depth arbitrary: x e)
  case 0
  then show ?case by simp
next
  case (Suc depth)
  show ?case
  proof (cases x)
    case (VRef r)
    show ?thesis
    proof (cases "st r")
      case (ArrayCell xs)
      with Suc.prems VRef have "mapE (stableStringifyAt depth fmt st) xs = Inl e"
        by (simp split: sum.splits)
      then obtain y where "stableStringifyAt depth fmt st y = Inl e"
        using mapE_Inl by blast
      then show ?thesis by (rule Suc.IH)
    next
      case (ObjectCell ps)
      let ?f = "\<lambda>k. case map_of ps k of None \<Rightarrow> Inl TypeError
                  | Some v \<Rightarrow> (case stableStringifyAt depth fmt st v of Inl e \<Rightarrow> Inl e
                                | Inr s \<Rightarrow> Inr (quote k @ '':'' @ s))"
      from Suc.prems VRef ObjectCell have "mapE ?f (sort (map fst ps)) = Inl e"
        by (simp add: Let_def split: sum.splits)
      then obtain k where k: "k \<in> set (sort (map fst ps))" and fk: "?f k = Inl e"
        using mapE_Inl [of ?f "sort (map fst ps)" e] by blast
      from k have "k \<in> fst ` set ps" by simp
      then obtain v where v: "map_of ps k = Some v"
        by (metis map_of_eq_None_iff not_None_eq)
      with fk have "stableStringifyAt depth fmt st v = Inl e"
        by (simp split: sum.splits)
      then show ?thesis by (rule Suc.IH)
    qed
  qed (use Suc.prems in simp_all)
qed

lemma cyclic_no_output:
  "cyclic st x \<Longrightarrow> stableStringifyAt depth fmt st x = Inl RangeError"
proof (induction depth arbitrary: x)
  case 0
  then show ?case by simp
next
  case (Suc depth)
  from Suc.prems have
    "(\<exists>r xs y. x = VRef r \<and> st r = ArrayCell xs \<and> y \<in> set xs \<and> cyclic st y) \<or>
     (\<exists>r ps k v. x = VRef r \<and> st r = ObjectCell ps \<and> map_of ps k = Some v \<and> cyclic st v)"
    by (rule cyclic.cases) blast+
  then show ?case
  proof (elim disjE exE conjE)
    fix r xs y
    assume x: "x = VRef r" and cell: "st r = ArrayCell xs" and y: "y \<in> set xs" and c: "cyclic st y"
    have "stableStringifyAt depth fmt st y = Inl RangeError" using c by (rule Suc.IH)
    with y have "\<exists>e. mapE (stableStringifyAt depth fmt st) xs = Inl e"
      by (rule mapE_fails)
    then obtain e where "mapE (stableStringifyAt depth fmt st) xs = Inl e" ..
    then have "stableStringifyAt (Suc depth) fmt st x = Inl e"
      by (simp add: x cell)
    moreover from this have "e = RangeError" by (rule stableStringifyAt_error)
    ultimately show ?thesis by simp
  next
    fix r ps k v
    assume x: "x = VRef r" and cell: "st r = ObjectCell ps" and kv: "map_of ps k = Some v"
      and c: "cyclic st v"
    let ?f = "\<lambda>k. case map_of ps k of None \<Rightarrow> Inl TypeError
                | Some v \<Rightarrow> (case stableStringifyAt depth fmt st v of Inl e \<Rightarrow> Inl e
                              | Inr s \<Rightarrow> Inr (quote k @ '':'' @ s))"
    from kv have "k \<in> fst ` set ps"
      by (metis map_of_eq_None_iff option.distinct(1))
    then have k: "k \<in> set (sort (map fst ps))" by simp
    have "stableStringifyAt depth fmt st v = Inl RangeError" using c by (rule Suc.IH)
    then have "?f k = Inl RangeError" by (simp add: kv)
    with k have "\<exists>e. mapE ?f (sort (map fst ps)) = Inl e"
      by (rule mapE_fails)
    then obtain e where "mapE ?f (sort (map fst ps)) = Inl e" ..
    then have "stableStringifyAt (Suc depth) fmt st x = Inl e"
      by (simp add: x cell Let_def)
    moreover from this have "e = RangeError" by (rule stableStringifyAt_error)
    ultimately show ?thesis by simp
  qed
qed

lemma common_depth:
  "list_all2 (\<lambda>x t. \<exists>d0 :: nat. \<forall>d \<ge> d0. P d x t) xs ts \<Longrightarrow>
   \<exists>D :: nat. \<forall>d \<ge> D. list_all2 (P d) xs ts"
proof (induction xs ts rule: list_all2_induct)
  case Nil
  then show ?case by simp
next
  case (Cons x xs t ts)
  from Cons(1) obtain d0 where d0: "\<forall>d \<ge> d0. P d x t" by blast
  from Cons(3) obtain D where D: "\<forall>d \<ge> D. list_all2 (P d) xs ts" by blast
  have "list_all2 (P d) (x # xs) (t # ts)" if "d \<ge> max d0 D" for d
  proof -
    from that have "d \<ge> d0" "d \<ge> D" by simp_all
    with d0 D show ?thesis by simp
  qed
  then show ?case by blast
qed

lemma map_of_related:
  "map fst ps = map fst qs \<Longrightarrow> list_all2 R (map snd ps) (map snd qs) \<Longrightarrow>
   rel_option R (map_of ps k) (map_of qs k)"
proof (induction ps arbitrary: qs)
  case Nil
  then show ?case by simp
next
  case (Cons p ps)
  then obtain q qs' where qs: "qs = q # qs'" by (cases qs) auto
  with Cons.prems have "fst p = fst q" "R (snd p) (snd q)"
    "map fst ps = map fst qs'" "list_all2 R (map snd ps) (map snd qs')" by simp_all
  with Cons.IH [of qs'] show ?case
    by (cases p, cases q) (simp add: qs)
qed

lemma denotes_agrees:
  "denotes st x t \<Longrightarrow> \<exists>d0. \<forall>d \<ge> d0. stableStringifyAt d fmt st x = stableStringify fmt t"
proof (induction rule: denotes.induct)
  case (denotesNull st)
  have "\<forall>d \<ge> 1. stableStringifyAt d fmt st VNull = stableStringify fmt JNull"
    by (auto simp: Suc_le_eq gr0_conv_Suc)
  then show ?case by blast
next
  case (denotesBool st b)
  have "\<forall>d \<ge> 1. stableStringifyAt d fmt st (VBool b) = stableStringify fmt (JBool b)"
    by (auto simp: Suc_le_eq gr0_conv_Suc)
  then show ?case by blast
next
  case (denotesNum st n)
  have "\<forall>d \<ge> 1. stableStringifyAt d fmt st (VNum n) = stableStringify fmt (JNum n)"
    by (auto simp: Suc_le_eq gr0_conv_Suc)
  then show ?case by blast
next
  case (denotesStr st s)
  have "\<forall>d \<ge> 1. stableStringifyAt d fmt st (VStr s) = stableStringify fmt (JStr s)"
    by (auto simp: Suc_le_eq gr0_conv_Suc)
  then show ?case by blast
next
  case (denotesArr st r xs ts)
  from denotesArr(2) have
    "list_all2 (\<lambda>x t. \<exists>d0. \<forall>d \<ge> d0. stableStringifyAt d fmt st x = stableStringify fmt t) xs ts"
    by (rule list_all2_mono) simp
  from common_depth [OF this] obtain D where
    D: "\<forall>d \<ge> D. list_all2 (\<lambda>x t. stableStringifyAt d fmt st x = stableStringify fmt t) xs ts"
    by blast
  have "stableStringifyAt d fmt st (VRef r) = stableStringify fmt (JArr ts)" if "d \<ge> Suc D" for d
  proof -
    from that obtain d' where d: "d = Suc d'" "d' \<ge> D" by (cases d) auto
    from D d(2) have "mapE (stableStringifyAt d' fmt st) xs = mapE (stableStringify fmt) ts"
      by (intro mapE_list_all2) simp
    then show ?thesis using denotesArr(1) by (simp add: d(1))
  qed
  then show ?case by blast
next
  case (denotesObj st r ps qs)
  from denotesObj(3) have
    "list_all2 (\<lambda>x t. \<exists>d0. \<forall>d \<ge> d0. stableStringifyAt d fmt st x = stableStringify fmt t)
       (map snd ps) (map snd qs)"
    by (rule list_all2_mono) simp
  from common_depth [OF this] obtain D where
    D: "\<forall>d \<ge> D. list_all2 (\<lambda>x t. stableStringifyAt d fmt st x = stableStringify fmt t)
                     (map snd ps) (map snd qs)"
    by blast
  have "stableStringifyAt d fmt st (VRef r) = stableStringify fmt (JObj qs)" if "d \<ge> Suc D" for d
  proof -
    from that obtain d' where d: "d = Suc d'" "d' \<ge> D" by (cases d) auto
    let ?f = "\<lambda>k. case map_of ps k of None \<Rightarrow> Inl TypeError
                | Some v \<Rightarrow> (case stableStringifyAt d' fmt st v of Inl e \<Rightarrow> Inl e
                              | Inr s \<Rightarrow> Inr (quote k @ '':'' @ s))"
    let ?g = "\<lambda>k. case map_of qs k of None \<Rightarrow> Inl TypeError
                | Some v \<Rightarrow> (case stableStringify fmt v of Inl e \<Rightarrow> Inl e
                              | Inr s \<Rightarrow> Inr (quote k @ '':'' @ s))"
    have "?f k = ?g k" for k
    proof -
      from D d(2) have "list_all2 (\<lambda>x t. stableStringifyAt d' fmt st x = stableStringify fmt t)
                     (map snd ps) (map snd qs)" by simp
      from map_of_related [OF denotesObj(2) this, of k] show ?thesis
        by (cases "map_of ps k"; cases "map_of qs k") simp_all
    qed
    then have "mapE ?f (sort (map fst ps)) = mapE ?g (sort (map fst qs))"
      using denotesObj(2) by simp
    then show ?thesis using denotesObj(1) by (simp add: d(1) Let_def)
  qed
  then show ?case by blast
qed

text \<open>
  Claim C8, as the code has it. \<open>stableStringify\<close> has no error of its own. A non-finite
  number (\<open>NaN\<close>, \<open>Infinity\<close>, \<open>-Infinity\<close>) is written as \<open>null\<close>, as
  \<open>JSON.stringify\<close> writes it, and every JSON-like value yields a string; a value in
  the store that unfolds into a JSON-like value yields the string of that value once the
  call stack is deep enough. On a cyclic structure there is no output at any depth of the
  call stack: nothing checks for cycles, and the recursion ends only when the stack is
  used up, with the RangeError of the runtime.
\<close>

theorem stableStringify_no_error:
  "(\<exists>s. stableStringify fmt v = Inr s) \<and>
   stableStringify fmt (JNum NaN) = Inr ''null'' \<and>
   stableStringify fmt (JNum PosInfinity) = Inr ''null'' \<and>
   stableStringify fmt (JNum NegInfinity) = Inr ''null'' \<and>
   (denotes st x t \<longrightarrow>
      (\<exists>d0. \<forall>d \<ge> d0. stableStringifyAt d fmt st x = stableStringify fmt t)) \<and>
   (cyclic st x \<longrightarrow> (\<forall>depth. stableStringifyAt depth fmt st x = Inl RangeError))"
  using stableStringify_returns [of fmt v] denotes_agrees [of st x t fmt]
    cyclic_no_output [of st x _ fmt]
  by (simp add: numberToJSON_def)

lemma self_containing_array: "cyclic (\<lambda>r. ArrayCell [VRef r]) (VRef 0)"
  by (coinduction) auto

theorem stableStringify_no_error_witness:
  "cyclic (\<lambda>r. ArrayCell [VRef r]) (VRef 0) \<and>
   (\<forall>depth. stableStringifyAt depth decimal (\<lambda>r. ArrayCell [VRef r]) (VRef 0) = Inl RangeError) \<and>
   denotes (\<lambda>r. ArrayCell [VNum NaN]) (VRef 0) (JArr [JNum NaN]) \<and>
   (\<exists>d0. \<forall>d \<ge> d0. stableStringifyAt d decimal (\<lambda>r. ArrayCell [VNum NaN]) (VRef 0) = Inr ''[null]'')"
proof -
  have d: "denotes (\<lambda>r. ArrayCell [VNum NaN]) (VRef 0) (JArr [JNum NaN])"
    by (rule denotesArr [where xs = "[VNum NaN]"]) (simp_all add: denotesNum)
  have s: "stableStringify decimal (JArr [JNum NaN]) = Inr ''[null]''"
    by (simp add: numberToJSON_def)
  from stableStringify_no_error [of decimal JNull "\<lambda>r. ArrayCell [VRef r]" "VRef 0" JNull]
    self_containing_array
  have c: "\<forall>depth. stableStringifyAt depth decimal (\<lambda>r. ArrayCell [VRef r]) (VRef 0) = Inl RangeError"
    by blast
  from stableStringify_no_error [of decimal JNull "\<lambda>r. ArrayCell [VNum NaN]" "VRef 0" "JArr [JNum NaN]"] d
  have "\<exists>d0. \<forall>d \<ge> d0. stableStringifyAt d decimal (\<lambda>r. ArrayCell [VNum NaN]) (VRef 0) =
                 stableStringify decimal (JArr [JNum NaN])"
    by blast
  with s c d self_containing_array show ?thesis by simp
qed

text \<open>
  The claim as stated fails: \<open>NaN\<close> and \<open>Infinity\<close> are serialised without any error.
\<close>

theorem nonfinite_counterexample:
  "stableStringify decimal (JNum NaN) = Inr ''null'' \<and>
   stableStringify decimal (JArr [JNum (Finite 1), JNum PosInfinity]) = Inr ''[1,null]''"
  by (simp add: numberToJSON_def decimal_def hexDigit_def)

section \<open>Properties of the streaming fingerprinter\<close>

lemma relativeIndex_nat: "relativeIndex (of_nat c) len = min c len"
  by (simp add: relativeIndex_def)

lemma subarray_nat: "subarray b 0 (of_nat c) = take c b"
  by (simp add: subarray_def relativeIndex_nat relativeIndex_def min_def)

lemma subarrayFrom_nat: "subarrayFrom b (of_nat c) = drop c b"
  by (simp add: subarrayFrom_def relativeIndex_nat min_def)

lemma drainChunks_nat:
  assumes c: "0 < c"
  shows "drainChunks blake2b (of_nat c) st =
           Some (st\<lparr>buf := drop (length (buf st) div c * c) (buf st),
                    leafHexes := leafHexes st @
                      map (\<lambda>i. leafHash blake2b (chunkAt c (buf st) i)) [0..<length (buf st) div c],
                    chunks := chunks st + length (buf st) div c\<rparr>)"
proof (induction "length (buf st)" arbitrary: st rule: less_induct)
  case less
  let ?b = "buf st"
  show ?case
  proof (cases "c \<le> length ?b")
    case False
    then have q: "length ?b div c = 0" by simp
    have "\<not> (of_nat c :: rat) \<le> of_nat (length ?b)" using False by simp
    then show ?thesis
      by (subst drainChunks.simps) (simp add: q)
  next
    case True
    let ?st1 = "st\<lparr>buf := drop c ?b, leafHexes := leafHexes st @ [leafHash blake2b (take c ?b)],
                     chunks := chunks st + 1\<rparr>"
    have lt: "length (buf ?st1) < length ?b" using True c by simp
    have q: "length ?b div c = Suc ((length ?b - c) div c)"
      using True c by (simp add: le_div_geq)
    have cond: "(of_nat c :: rat) \<le> of_nat (length ?b)" using True by simp
    have step: "drainChunks blake2b (of_nat c) st = drainChunks blake2b (of_nat c) ?st1"
      using cond by (subst drainChunks.simps) (simp add: subarray_nat subarrayFrom_nat Let_def)
    have idx: "[0..<Suc n] = 0 # map Suc [0..<n]" for n
      by (simp add: upt_conv_Cons map_Suc_upt del: upt_Suc)
    have ch: "chunkAt c (drop c ?b) i = chunkAt c ?b (Suc i)" for i
      by (simp add: chunkAt_def add.commute)
    show ?thesis
      unfolding step less [OF lt]
      by (simp add: q idx ch chunkAt_def comp_def add.commute del: upt_Suc)
  qed
qed

lemma chunkAt_append_full:
  assumes "Suc i * c \<le> length y"
  shows "chunkAt c (y @ z) i = chunkAt c y i"
proof -
  have "i * c \<le> length y" and "c \<le> length y - i * c" using assms by simp_all
  then show ?thesis by (simp add: chunkAt_def)
qed

lemma chunkAt_drop: "chunkAt c (drop (q * c) z) i = chunkAt c z (q + i)"
  by (simp add: chunkAt_def algebra_simps)

lemma map_shift_upt: "map (\<lambda>i. f (q + i)) [0..<n] = map f [q..<q + n]"
  by (induction n) simp_all

lemma onData_nat:
  assumes c: "0 < c"
  shows "onData blake2b (of_nat c) (stateAfter blake2b c y) chunk =
           Some (stateAfter blake2b c (y @ chunk))"
proof -
  define q where "q = length y div c"
  define b where "b = drop (q * c) y @ chunk"
  define q' where "q' = length b div c"
  define z where "z = y @ chunk"
  have qc: "q * c \<le> length y" by (simp add: q_def div_times_less_eq_dividend)
  have b: "b = drop (q * c) z" using qc by (simp add: b_def z_def)
  have lenb: "length b = length y mod c + length chunk"
    by (simp add: b_def q_def minus_div_mult_eq_mod)
  have "length z = q * c + (length y mod c + length chunk)"
    by (simp add: q_def z_def div_mult_mod_eq)
  then have "length z div c = q + (length y mod c + length chunk) div c"
    using c by (metis add.commute div_mult_self1 less_numeral_extra(3) mult.commute)
  then have q: "length z div c = q + q'"
    using lenb by (simp add: q'_def)
  have old: "map (\<lambda>i. leafHash blake2b (chunkAt c y i)) [0..<q] =
             map (\<lambda>i. leafHash blake2b (chunkAt c z i)) [0..<q]"
  proof (rule map_cong [OF refl])
    fix i assume "i \<in> set [0..<q]"
    then have "Suc i \<le> q" by simp
    then have "Suc i * c \<le> q * c" by (rule mult_le_mono1)
    with qc have "Suc i * c \<le> length y" by (rule order_trans [rotated])
    then show "leafHash blake2b (chunkAt c y i) = leafHash blake2b (chunkAt c z i)"
      by (simp add: chunkAt_append_full z_def)
  qed
  have new: "map (\<lambda>i. leafHash blake2b (chunkAt c b i)) [0..<q'] =
             map (\<lambda>i. leafHash blake2b (chunkAt c z i)) [q..<q + q']"
    unfolding b chunkAt_drop
    by (rule map_shift_upt)
  have leaves: "map (\<lambda>i. leafHash blake2b (chunkAt c y i)) [0..<q] @
                map (\<lambda>i. leafHash blake2b (chunkAt c b i)) [0..<q'] =
                map (\<lambda>i. leafHash blake2b (chunkAt c z i)) [0..<q + q']"
    unfolding old new by (simp add: upt_add_eq_append [of 0 q q', simplified])
  have rest: "drop (q' * c) b = drop ((q + q') * c) z"
    unfolding b by (simp add: algebra_simps)
  have "onData blake2b (of_nat c) (stateAfter blake2b c y) chunk =
        Some \<lparr>stream_state.bytes = length y + length chunk, buf = drop (q' * c) b,
              chunks = q + q',
              leafHexes = map (\<lambda>i. leafHash blake2b (chunkAt c y i)) [0..<q] @
                          map (\<lambda>i. leafHash blake2b (chunkAt c b i)) [0..<q'],
              fileBlake2b = y @ chunk, fileSha512 = y @ chunk\<rparr>"
    unfolding onData_def
    by (subst drainChunks_nat [OF c]) (simp add: stateAfter_def q_def [symmetric] b_def [symmetric] q'_def [symmetric])
  also have "\<dots> = Some (stateAfter blake2b c z)"
    unfolding leaves rest by (simp add: stateAfter_def q) (simp add: z_def)
  finally show ?thesis by (simp add: z_def)
qed

lemma readAll_nat:
  assumes c: "0 < c"
  shows "readAll blake2b (of_nat c) (stateAfter blake2b c y) reads =
           Some (stateAfter blake2b c (y @ concat reads))"
  by (induction reads arbitrary: y) (simp_all add: onData_nat [OF c])

lemma initialState_stateAfter: "initialState = stateAfter blake2b c []"
  by (simp add: initialState_def stateAfter_def)


lemma merkleRoot_returns:
  "\<exists>m. merkleRootFromLeafHex h ls = Inr m \<and> leaf_count m = length ls"
proof (cases "ls = []")
  case True
  then show ?thesis by (simp add: merkleRootFromLeafHex_def)
next
  case False
  then have "length (reduceLevel h (map fromHex ls)) = 1"
    by (intro reduceLevel_single) simp
  then obtain t where "reduceLevel h (map fromHex ls) = [t]"
    by (cases "reduceLevel h (map fromHex ls)") auto
  then show ?thesis using False by (simp add: merkleRootFromLeafHex_def elemAt_def)
qed




section \<open>Properties of the attest operation\<close>

lemma insertionSet_aux:
  "distinct acc \<Longrightarrow>
   distinct (foldl (\<lambda>acc x. if x \<in> set acc then acc else acc @ [x]) acc xs) \<and>
   set (foldl (\<lambda>acc x. if x \<in> set acc then acc else acc @ [x]) acc xs) = set acc \<union> set xs"
  by (induction xs arbitrary: acc) auto

lemma distinct_insertionSet: "distinct (insertionSet xs)"
  using insertionSet_aux [of "[]" xs] by (simp add: insertionSet_def)

lemma set_insertionSet: "set (insertionSet xs) = set xs"
  using insertionSet_aux [of "[]" xs] by (simp add: insertionSet_def)

lemma sampleIndices_pos:
  assumes "0 < n"
  shows "distinct (sampleIndices n)"
    and "set (sampleIndices n) = {0, int n div 4, int n div 2, 3 * int n div 4, int n - 1}"
proof -
  show "distinct (sampleIndices n)"
    by (simp add: sampleIndices_def Let_def distinct_insertionSet)
  have "filter (\<lambda>i. i \<ge> 0 \<and> i < int n)
          [0, int n div 4, int n div 2, (3 * int n) div 4, max 0 (int n - 1)] =
        [0, int n div 4, int n div 2, (3 * int n) div 4, int n - 1]"
  proof -
    have "int n div 4 < int n" "int n div 2 < int n" "3 * int n div 4 < int n"
      "0 \<le> int n div 4" "0 \<le> int n div 2" "0 \<le> 3 * int n div 4"
      using assms by presburger+
    then show ?thesis using assms by simp
  qed
  then show "set (sampleIndices n) = {0, int n div 4, int n div 2, 3 * int n div 4, int n - 1}"
    by (simp add: sampleIndices_def Let_def set_insertionSet del: filter.simps)
qed

lemma sampleIndices_in_range: "i \<in> set (sampleIndices n) \<Longrightarrow> 0 \<le> i \<and> i < int n"
  by (simp add: sampleIndices_def Let_def set_insertionSet del: filter.simps)

lemma sampleIndices_100: "sampleIndices 100 = [0, 25, 50, 75, 99]"
  by (simp add: sampleIndices_def insertionSet_def)

lemma sampleIndices_0: "sampleIndices 0 = []"
  by (simp add: sampleIndices_def insertionSet_def)

lemma mapE_Inr:
  "mapE f xs = Inr ys \<Longrightarrow> list_all2 (\<lambda>x y. f x = Inr y) xs ys"
  by (induction xs arbitrary: ys) (auto split: sum.splits)

lemma sampleProof_in_range:
  assumes "0 \<le> i" "i < int (length leaves)"
  shows "\<exists>q. merkleProof blake2b leaves i = Inr q \<and> index q = i \<and>
             sampleProof blake2b leaves rootHex i =
               Inr \<lparr>index = i, leaf_hex = leaf_hex q, siblings_hex = siblings_hex q,
                    verifies = verifyProof blake2b rootHex q\<rparr> \<and>
             (\<forall>r. merkleRootFromLeafHex blake2b leaves = Inr r \<and> rootHex = root_hex r \<longrightarrow>
                  verifyProof blake2b rootHex q)"
proof -
  from assms have "leaves \<noteq> []" by auto
  from merkleProof_verifies [OF this assms, of blake2b] obtain r q where
    "merkleRootFromLeafHex blake2b leaves = Inr r"
    "merkleProof blake2b leaves i = Inr q" "index q = i" "verifyProof blake2b (root_hex r) q"
    by blast
  then show ?thesis by (simp add: sampleProof_def)
qed

lemma sampledProofs_returns:
  assumes "\<And>i. i \<in> set is \<Longrightarrow> 0 \<le> i \<and> i < int (length leaves)"
  shows "\<exists>ps. sampledProofs blake2b leaves rootHex is = Inr ps \<and>
              list_all2 (sampleOf blake2b leaves rootHex) is ps \<and>
              (\<forall>r. merkleRootFromLeafHex blake2b leaves = Inr r \<and> rootHex = root_hex r \<longrightarrow>
                   list_all verifies ps)"
  using assms unfolding sampledProofs_def
proof (induction "is")
  case Nil
  then show ?case by simp
next
  case (Cons i "is")
  from Cons.prems [of i] have r: "0 \<le> i" "i < int (length leaves)" by simp_all
  from sampleProof_in_range [OF r, of blake2b rootHex] obtain q where
    q: "merkleProof blake2b leaves i = Inr q" "index q = i"
       "sampleProof blake2b leaves rootHex i =
          Inr \<lparr>index = i, leaf_hex = leaf_hex q, siblings_hex = siblings_hex q,
               verifies = verifyProof blake2b rootHex q\<rparr>"
       "\<forall>r. merkleRootFromLeafHex blake2b leaves = Inr r \<and> rootHex = root_hex r \<longrightarrow>
                  verifyProof blake2b rootHex q"
    by blast
  from Cons.IH Cons.prems obtain ps where
    ps: "mapE (sampleProof blake2b leaves rootHex) is = Inr ps"
        "list_all2 (sampleOf blake2b leaves rootHex) is ps"
        "\<forall>r. merkleRootFromLeafHex blake2b leaves = Inr r \<and> rootHex = root_hex r \<longrightarrow>
                   list_all verifies ps"
    by auto
  have hd: "sampleOf blake2b leaves rootHex i
              \<lparr>index = i, leaf_hex = leaf_hex q, siblings_hex = siblings_hex q,
               verifies = verifyProof blake2b rootHex q\<rparr>"
    using q(1) by (simp add: sampleOf_def)
  show ?case using q(3,4) ps hd by auto
qed

lemma attest_sampled:
  assumes "attest blake2b sha512h fmt sign ctx kp src chunkSize = Some (Inr a)"
  shows "\<exists>core ps pr.
           streamDigestsAndLeaves blake2b sha512h src chunkSize = Some (Inr core) \<and>
           sampledProofs blake2b (leaf_hexes core) (root (merkle core))
             (sampleIndices (length (leaf_hexes core))) = Inr ps \<and>
           getProp a ''proofs'' = Some pr \<and>
           getProp pr ''sampled'' = Some (JArr (map sampledJson ps))"
  using assms
  by (auto simp: attest_def Let_def getProp_def split: sum.splits option.splits)

lemma attest_example:
  "(case attest toyHash toyHash decimal (\<lambda>k msg. Inr ''sig'')
          \<lparr>run_id = ''r'', created_at = ''t'', filename = ''f'', node = ''v20'',
           platform = ''linux'', arch = ''x64''\<rparr>
          \<lparr>publicKeyPem = ''pub'', privateKeyPem = ''priv''\<rparr> (Regular [[1, 2, 3]]) 2 of
      Some (Inr a) \<Rightarrow> True | _ \<Rightarrow> False)"
  by code_simp

text \<open>
  Claim C6. For \<open>n = 0\<close> leaves there are no samples. For \<open>n > 0\<close> the sampled
  indices are, without repetition, exactly \<open>0\<close>, \<open>n div 4\<close>, \<open>n div 2\<close>,
  \<open>3 n div 4\<close> and \<open>n - 1\<close>; for \<open>n = 100\<close> they are 0, 25, 50, 75, 99. For every
  sampled index an inclusion proof is built and recorded with the outcome of verifying it
  against the root (true when the root is the one computed from the leaves), and the
  attestation document lists exactly these records under \<open>proofs.sampled\<close>.
\<close>

theorem sampling_policy:
  "sampleIndices 0 = [] \<and>
   sampleIndices 100 = [0, 25, 50, 75, 99] \<and>
   (0 < n \<longrightarrow>
      distinct (sampleIndices n) \<and>
      set (sampleIndices n) = {0, int n div 4, int n div 2, 3 * int n div 4, int n - 1}) \<and>
   (\<exists>ps. sampledProofs blake2b leaves rootHex (sampleIndices (length leaves)) = Inr ps \<and>
         list_all2 (sampleOf blake2b leaves rootHex) (sampleIndices (length leaves)) ps \<and>
         (\<forall>r. merkleRootFromLeafHex blake2b leaves = Inr r \<and> rootHex = root_hex r \<longrightarrow>
              list_all verifies ps)) \<and>
   (attest blake2b sha512h fmt sign ctx kp src chunkSize = Some (Inr a) \<longrightarrow>
      (\<exists>core ps pr.
           streamDigestsAndLeaves blake2b sha512h src chunkSize = Some (Inr core) \<and>
           sampledProofs blake2b (leaf_hexes core) (root (merkle core))
             (sampleIndices (length (leaf_hexes core))) = Inr ps \<and>
           getProp a ''proofs'' = Some pr \<and>
           getProp pr ''sampled'' = Some (JArr (map sampledJson ps))))"
proof -
  have "\<exists>ps. sampledProofs blake2b leaves rootHex (sampleIndices (length leaves)) = Inr ps \<and>
         list_all2 (sampleOf blake2b leaves rootHex) (sampleIndices (length leaves)) ps \<and>
         (\<forall>r. merkleRootFromLeafHex blake2b leaves = Inr r \<and> rootHex = root_hex r \<longrightarrow>
              list_all verifies ps)"
    by (rule sampledProofs_returns) (rule sampleIndices_in_range)
  then show ?thesis
    using sampleIndices_0 sampleIndices_100 sampleIndices_pos [of n]
      attest_sampled [of blake2b sha512h fmt sign ctx kp src chunkSize a]
    by blast
qed

theorem sampling_policy_witness:
  "(0::nat) < 100 \<and> distinct (sampleIndices 100) \<and>
   set (sampleIndices 100) = {0, 25, 50, 75, 99} \<and>
   (\<exists>r ps. merkleRootFromLeafHex toyHash [''0a'', ''0b'', ''0c''] = Inr r \<and>
      sampledProofs toyHash [''0a'', ''0b'', ''0c''] (root_hex r)
        (sampleIndices (length [''0a'', ''0b'', ''0c''])) = Inr ps \<and>
      list_all verifies ps) \<and>
   (\<exists>a pr ps.
      attest toyHash toyHash decimal (\<lambda>k msg. Inr ''sig'')
          \<lparr>run_id = ''r'', created_at = ''t'', filename = ''f'', node = ''v20'',
           platform = ''linux'', arch = ''x64''\<rparr>
          \<lparr>publicKeyPem = ''pub'', privateKeyPem = ''priv''\<rparr> (Regular [[1, 2, 3]]) 2 = Some (Inr a) \<and>
      getProp a ''proofs'' = Some pr \<and>
      getProp pr ''sampled'' = Some (JArr (map sampledJson ps)))"
proof -
  let ?L = "[''0a'', ''0b'', ''0c'']"
  let ?att = "attest toyHash toyHash decimal (\<lambda>k msg. Inr ''sig'')
          \<lparr>run_id = ''r'', created_at = ''t'', filename = ''f'', node = ''v20'',
           platform = ''linux'', arch = ''x64''\<rparr>
          \<lparr>publicKeyPem = ''pub'', privateKeyPem = ''priv''\<rparr> (Regular [[1, 2, 3]]) 2"
  from merkleRoot_returns [of toyHash ?L] obtain r where
    r: "merkleRootFromLeafHex toyHash ?L = Inr r" by blast
  from attest_example obtain a where a: "?att = Some (Inr a)"
    by (auto split: option.splits sum.splits)
  from sampling_policy [of 100 toyHash ?L "root_hex r" toyHash decimal
      "\<lambda>k msg. Inr ''sig''" "\<lparr>run_id = ''r'', created_at = ''t'', filename = ''f'',
         node = ''v20'', platform = ''linux'', arch = ''x64''\<rparr>"
      "\<lparr>publicKeyPem = ''pub'', privateKeyPem = ''priv''\<rparr>" "Regular [[1, 2, 3]]" 2 a]
  have idx: "distinct (sampleIndices 100)" "sampleIndices 100 = [0, 25, 50, 75, 99]"
    and smp: "\<exists>ps. sampledProofs toyHash ?L (root_hex r) (sampleIndices (length ?L)) = Inr ps \<and>
                 list_all verifies ps"
    and att: "\<exists>core ps pr.
           streamDigestsAndLeaves toyHash toyHash (Regular [[1, 2, 3]]) 2 = Some (Inr core) \<and>
           sampledProofs toyHash (leaf_hexes core) (root (merkle core))
             (sampleIndices (length (leaf_hexes core))) = Inr ps \<and>
           getProp a ''proofs'' = Some pr \<and>
           getProp pr ''sampled'' = Some (JArr (map sampledJson ps))"
    using r a by auto
  have pos: "(0::nat) < 100" by simp
  from idx(2) have elems: "set (sampleIndices 100) = {0, 25, 50, 75, 99}" by simp
  from r smp have proofs:
    "\<exists>r ps. merkleRootFromLeafHex toyHash ?L = Inr r \<and>
      sampledProofs toyHash ?L (root_hex r) (sampleIndices (length ?L)) = Inr ps \<and>
      list_all verifies ps"
    by blast
  from a att have doc:
    "\<exists>a pr ps. ?att = Some (Inr a) \<and> getProp a ''proofs'' = Some pr \<and>
      getProp pr ''sampled'' = Some (JArr (map sampledJson ps))"
    by blast
  from pos idx(1) elems proofs doc show ?thesis by (intro conjI)
qed

text \<open>
  Claim C2, as the code has it. In an attestation document, \<open>manifest_sha512\<close> is the
  SHA-512 digest of \<open>JSON.stringify\<close> of the manifest, and
  \<open>signed_message_sha512\<close> that of \<open>JSON.stringify\<close> of the signed payload:
  text without whitespace whose keys stand in the order of construction, not sorted.
\<close>

theorem attest_digests:
  assumes "attest blake2b sha512h fmt sign ctx kp src chunkSize = Some (Inr a)"
  shows "\<exists>m c sg.
           getProp a ''manifest'' = Some m \<and>
           getProp a ''claims'' = Some c \<and>
           getProp a ''signature'' = Some sg \<and>
           getProp c ''manifest_sha512'' = Some (JStr (sha512Hex sha512h (JSON_stringify fmt m))) \<and>
           getProp sg ''signed_message_sha512'' =
             Some (JStr (sha512Hex sha512h (JSON_stringify fmt c)))"
  using assms
  by (auto simp: attest_def Let_def getProp_def signedPayloadOf_def
           split: sum.splits option.splits)

theorem attest_digests_witness:
  "\<exists>a m c. attest toyHash toyHash decimal (\<lambda>k msg. Inr ''sig'')
          \<lparr>run_id = ''r'', created_at = ''t'', filename = ''f'', node = ''v20'',
           platform = ''linux'', arch = ''x64''\<rparr>
          \<lparr>publicKeyPem = ''pub'', privateKeyPem = ''priv''\<rparr> (Regular [[1, 2, 3]]) 2 = Some (Inr a) \<and>
      getProp a ''manifest'' = Some m \<and> getProp a ''claims'' = Some c \<and>
      getProp c ''manifest_sha512'' = Some (JStr (sha512Hex toyHash (JSON_stringify decimal m)))"
proof -
  from attest_example obtain a where
    a: "attest toyHash toyHash decimal (\<lambda>k msg. Inr ''sig'')
          \<lparr>run_id = ''r'', created_at = ''t'', filename = ''f'', node = ''v20'',
           platform = ''linux'', arch = ''x64''\<rparr>
          \<lparr>publicKeyPem = ''pub'', privateKeyPem = ''priv''\<rparr> (Regular [[1, 2, 3]]) 2 = Some (Inr a)"
    by (auto split: option.splits sum.splits)
  from attest_digests [OF a] a show ?thesis by blast
qed

text \<open>
  The claim as stated fails. Take as stand-in for SHA-512 the function that keeps the first
  eight bytes of its input. The \<open>manifest_sha512\<close> of a concrete attestation is then
  the hex text of \<open>{"schema\<close>, the start of \<open>JSON.stringify(manifest)\<close>, whereas the
  canonical JSON of the same manifest starts with \<open>{"engine\<close>: the text that is hashed
  is not the canonical one.
\<close>

theorem attest_digests_counterexample:
  "(case attest (take 8) (take 8) decimal (\<lambda>k msg. Inr ''sig'')
          \<lparr>run_id = ''r'', created_at = ''t'', filename = ''f'', node = ''v20'',
           platform = ''linux'', arch = ''x64''\<rparr>
          \<lparr>publicKeyPem = ''pub'', privateKeyPem = ''priv''\<rparr> (Regular [[1, 2, 3]]) 2 of
      Some (Inr a) \<Rightarrow>
        claimedManifestDigest a = Some (JStr ''7b22736368656d61'') \<and>
        canonicalManifestDigest (take 8) decimal a = Some (JStr ''7b22656e67696e65'')
    | _ \<Rightarrow> False)"
  by code_simp

section \<open>Properties of the verifier and of the command line\<close>

lemma hash_example_fraction:
  "(case main exampleRuntime [''hash'', ''data.bin'', ''--chunk'', ''2.5''] of
      Some (HashJson r, code) \<Rightarrow> code = 0 \<and> length (leaf_hexes r) = 3
    | _ \<Rightarrow> False)"
  by code_simp

lemma drainChunks_half_never_ends:
  assumes "drainChunks blake2b chunkSize st = Some st'"
  shows "chunkSize = 1 / 2 \<longrightarrow> buf st = []"
proof (rule drainChunks.raw_induct [where P = "\<lambda>b c s y. c = 1 / 2 \<longrightarrow> buf s = []", OF _ assms])
  fix drain :: "(buffer \<Rightarrow> buffer) \<Rightarrow> rat \<Rightarrow> stream_state \<Rightarrow> stream_state option"
  fix b c s y
  assume IH: "\<And>b c s y. drain b c s = Some y \<Longrightarrow> c = 1 / 2 \<longrightarrow> buf s = []"
  assume step:
    "(if c \<le> rat_of_nat (length (buf s))
      then let out = subarray (buf s) 0 c
           in drain b c
               (s\<lparr>buf := subarrayFrom (buf s) c,
                  leafHexes := leafHexes s @ [leafHash b out],
                  chunks := chunks s + 1\<rparr>)
      else Some s) = Some y"
  show "c = 1 / 2 \<longrightarrow> buf s = []"
  proof (intro impI, rule ccontr)
    assume c: "c = 1 / 2" and ne: "buf s \<noteq> []"
    have "relativeIndex (1 / 2) (length (buf s)) = 0"
      by (simp add: relativeIndex_def)
    then have rest: "subarrayFrom (buf s) (1 / 2) = buf s"
      by (simp add: subarrayFrom_def)
    from ne have "1 \<le> length (buf s)" by (cases "buf s") auto
    then have "(1 :: rat) \<le> of_nat (length (buf s))" by (metis of_nat_1 of_nat_le_iff)
    then have "(1 / 2 :: rat) \<le> of_nat (length (buf s))" by simp
    with step c have
      "drain b (1 / 2)
         (s\<lparr>buf := buf s,
            leafHexes := leafHexes s @ [leafHash b (subarray (buf s) 0 (1 / 2))],
            chunks := chunks s + 1\<rparr>) = Some y"
      by (simp add: rest Let_def)
    from IH [OF this] ne show False by simp
  qed
qed

lemma drainChunks_half: "buf st \<noteq> [] \<Longrightarrow> drainChunks blake2b (1 / 2) st = None"
  using drainChunks_half_never_ends [of blake2b "1 / 2" st]
  by (cases "drainChunks blake2b (1 / 2) st") auto

lemma hash_example_half:
  "main exampleRuntime [''hash'', ''data.bin'', ''--chunk'', ''0.5''] = None"
proof -
  have "onData toyHash (1 / 2) initialState [1, 2, 3] = None"
    unfolding onData_def by (rule drainChunks_half) (simp add: initialState_def)
  then have "streamDigestsAndLeaves toyHash toyHash (Regular [[1, 2, 3], [4, 5]]) (1 / 2) = None"
    by (simp add: streamDigestsAndLeaves_def)
  then show ?thesis
    by (simp add: main_def exampleRuntime_def truthy_def elemAt_def getFlag_def validChunkSize_def)
qed

text \<open>
  Claim C9, the code at a value that is not a positive integer. The validation accepts
  every finite positive number. With \<open>--chunk 0.5\<close> the hash command is not rejected
  and never ends: the chunk width truncates to zero, so the loop of the data handler
  emits leaves of the empty chunk for ever. With \<open>--chunk 2.5\<close> on a five-byte file it
  ends with status 0 and three leaves.
\<close>

theorem fractional_chunk_not_rejected:
  "validChunkSize (Finite (1 / 2)) \<and>
   main exampleRuntime [''hash'', ''data.bin'', ''--chunk'', ''0.5''] = None \<and>
   (case main exampleRuntime [''hash'', ''data.bin'', ''--chunk'', ''2.5''] of
      Some (HashJson r, code) \<Rightarrow> code = 0 \<and> length (leaf_hexes r) = 3
    | _ \<Rightarrow> False)"
  using hash_example_half hash_example_fraction by (simp add: validChunkSize_def)

text \<open>
  What the validation does reject, with exit status 1 and before any fingerprinting:
  \<open>NaN\<close>, the infinities, zero and the negative numbers.
\<close>

lemma invalid_chunk_rejected:
  assumes "cmd \<noteq> []" "cmd \<noteq> ''verify''" "cmd \<noteq> ''--chunk''"
    and "file \<noteq> []" "file \<noteq> ''--chunk''"
    and "\<not> validChunkSize (rt_strToNum rt v)"
  shows "main rt [cmd, file, ''--chunk'', v] = Some (InvalidChunk, 1)"
  using assms
  by (simp add: main_def truthy_def elemAt_def getFlag_def Let_def)

lemma drainChunks_keeps:
  assumes "drainChunks blake2b chunkSize st = Some st'"
  shows "stream_state.bytes st' = stream_state.bytes st \<and> fileBlake2b st' = fileBlake2b st \<and>
         fileSha512 st' = fileSha512 st"
proof (rule drainChunks.raw_induct
    [where P = "\<lambda>b c s y. stream_state.bytes y = stream_state.bytes s \<and>
                  fileBlake2b y = fileBlake2b s \<and> fileSha512 y = fileSha512 s", OF _ assms])
  fix drain :: "(buffer \<Rightarrow> buffer) \<Rightarrow> rat \<Rightarrow> stream_state \<Rightarrow> stream_state option"
  fix b c s y
  assume IH: "\<And>b c s y. drain b c s = Some y \<Longrightarrow>
                 stream_state.bytes y = stream_state.bytes s \<and>
                 fileBlake2b y = fileBlake2b s \<and> fileSha512 y = fileSha512 s"
  assume step:
    "(if c \<le> rat_of_nat (length (buf s))
      then let out = subarray (buf s) 0 c
           in drain b c
               (s\<lparr>buf := subarrayFrom (buf s) c,
                  leafHexes := leafHexes s @ [leafHash b out],
                  chunks := chunks s + 1\<rparr>)
      else Some s) = Some y"
  show "stream_state.bytes y = stream_state.bytes s \<and>
        fileBlake2b y = fileBlake2b s \<and> fileSha512 y = fileSha512 s"
  proof (cases "c \<le> rat_of_nat (length (buf s))")
    case True
    with step have "drain b c
               (s\<lparr>buf := subarrayFrom (buf s) c,
                  leafHexes := leafHexes s @ [leafHash b (subarray (buf s) 0 c)],
                  chunks := chunks s + 1\<rparr>) = Some y"
      by (simp add: Let_def)
    from IH [OF this] show ?thesis by simp
  next
    case False
    with step show ?thesis by simp
  qed
qed

lemma onData_keeps:
  assumes "onData blake2b chunkSize st chunk = Some st'"
  shows "stream_state.bytes st' = stream_state.bytes st + length chunk \<and>
         fileBlake2b st' = fileBlake2b st @ chunk \<and> fileSha512 st' = fileSha512 st @ chunk"
  using drainChunks_keeps [OF assms [unfolded onData_def]] by simp

lemma readAll_keeps:
  "readAll blake2b chunkSize st reads = Some st' \<Longrightarrow>
     stream_state.bytes st' = stream_state.bytes st + length (concat reads) \<and>
     fileBlake2b st' = fileBlake2b st @ concat reads \<and>
     fileSha512 st' = fileSha512 st @ concat reads"
proof (induction reads arbitrary: st)
  case Nil
  then show ?case by simp
next
  case (Cons chunk rest)
  then obtain st1 where 1: "onData blake2b chunkSize st chunk = Some st1"
    and 2: "readAll blake2b chunkSize st1 rest = Some st'"
    by (auto split: option.splits)
  from onData_keeps [OF 1] Cons.IH [OF 2] show ?case by simp
qed

lemma verifierStream_result:
  assumes "verifierStream blake2b chunkSize src = Some (Inr st)"
  shows "\<exists>reads st0. src = Regular reads \<and>
           readAll blake2b chunkSize initialState reads = Some st0 \<and>
           stream_state.bytes st = length (concat reads) \<and>
           fileBlake2b st = concat reads \<and> fileSha512 st = concat reads \<and>
           leafHexes st =
             (if length (buf st0) > 0 then leafHexes st0 @ [leafHash blake2b (buf st0)]
              else leafHexes st0)"
proof (cases src)
  case (Regular reads)
  with assms obtain st0 where r: "readAll blake2b chunkSize initialState reads = Some st0"
    and st: "st = (if length (buf st0) > 0
                   then st0\<lparr>leafHexes := leafHexes st0 @ [leafHash blake2b (buf st0)], buf := []\<rparr>
                   else st0)"
    by (auto simp: verifierStream_def split: option.splits)
  from readAll_keeps [OF r] show ?thesis
    using Regular r st by (simp add: initialState_def)
qed (use assms in \<open>auto simp: verifierStream_def split: option.splits\<close>)

lemma signatureCheck_valid:
  assumes "signatureCheck verify sg message = Inr b"
  shows "b \<longleftrightarrow>
           getProp sg ''algorithm'' = Some (JStr ''ed25519'') \<and>
           (\<exists>pk sb. getProp sg ''public_key_pem'' = Some (JStr pk) \<and>
                    getProp sg ''signature_b64'' = Some (JStr sb) \<and>
                    verify pk message sb = Inr True)"
  using assms
  by (auto simp: signatureCheck_def split: if_splits option.splits json.splits)

lemma signatureCheck_returns:
  assumes "\<forall>pk m s. \<exists>b. verify pk m s = Inr b"
  shows "\<exists>b. signatureCheck verify sg message = Inr b"
  using assms
  by (auto simp: signatureCheck_def split: if_splits option.splits json.splits)

lemma verifierStream_fingerprint:
  assumes v: "verifierStream blake2b chunkSize src = Some (Inr st)"
    and m: "merkleRootFromLeafHex blake2b (leafHexes st) = Inr merkleRes"
  shows "\<exists>reads fp. src = Regular reads \<and>
           streamDigestsAndLeaves blake2b sha512h src chunkSize = Some (Inr fp) \<and>
           stream_state.bytes st = length (concat reads) \<and>
           fileBlake2b st = concat reads \<and> fileSha512 st = concat reads \<and>
           root (merkle fp) = root_hex merkleRes \<and>
           mc_leaf_count (merkle fp) = leaf_count merkleRes"
proof -
  from verifierStream_result [OF v] obtain reads st0 where
    src: "src = Regular reads"
    and r: "readAll blake2b chunkSize initialState reads = Some st0"
    and k: "stream_state.bytes st = length (concat reads)" "fileBlake2b st = concat reads"
      "fileSha512 st = concat reads"
    and l: "leafHexes st =
             (if length (buf st0) > 0 then leafHexes st0 @ [leafHash blake2b (buf st0)]
              else leafHexes st0)"
    by blast
  have "\<exists>fp. finish blake2b sha512h chunkSize st0 = Inr fp \<and>
             root (merkle fp) = root_hex merkleRes \<and>
             mc_leaf_count (merkle fp) = leaf_count merkleRes"
    using m l by (auto simp: finish_def Let_def)
  then show ?thesis
    using src r k by (auto simp: streamDigestsAndLeaves_def)
qed

lemma verifyBundle_steps:
  assumes "verifyBundle blake2b sha512h fmt strToNum verify parsed src = Some (Inr r)"
  shows "\<exists>a chunkSize st merkleRes sigOk.
           parsed = Inr a \<and> a \<noteq> JNull \<and>
           toNumber strToNum fmt
             (getProp (orEmptyObject (getProp (orEmptyObject (getProp a ''claims'')) ''merkle''))
                ''chunk_size'') = Finite chunkSize \<and>
           0 < chunkSize \<and>
           verifierStream blake2b chunkSize src = Some (Inr st) \<and>
           merkleRootFromLeafHex blake2b (leafHexes st) = Inr merkleRes \<and>
           signatureCheck verify (orEmptyObject (getProp a ''signature''))
             (utf8 (JSON_stringify fmt (orEmptyObject (getProp a ''claims'')))) = Inr sigOk \<and>
           r = compareWithBundle
                 (orEmptyObject (getProp (orEmptyObject (getProp a ''claims'')) ''file_digests''))
                 (orEmptyObject (getProp (orEmptyObject (getProp a ''claims'')) ''merkle''))
                 (orEmptyObject (getProp a ''signature''))
                 (stream_state.bytes st)
                 \<lparr>blake2b_512 = toHex (blake2b (fileBlake2b st)),
                  sha512 = toHex (sha512h (fileSha512 st))\<rparr>
                 merkleRes
                 (sha512Hex sha512h (JSON_stringify fmt (orEmptyObject (getProp a ''claims''))))
                 sigOk"
proof (cases parsed)
  case (Inl e)
  with assms show ?thesis by (simp add: verifyBundle_def)
next
  case (Inr a)
  define claims where "claims = orEmptyObject (getProp a ''claims'')"
  define expectedMerkle where "expectedMerkle = orEmptyObject (getProp claims ''merkle'')"
  define expectedFile where "expectedFile = orEmptyObject (getProp claims ''file_digests'')"
  define sg where "sg = orEmptyObject (getProp a ''signature'')"
  from assms Inr have a: "a \<noteq> JNull"
    by (auto simp: verifyBundle_def)
  from assms Inr a have run:
    "(case toNumber strToNum fmt (getProp expectedMerkle ''chunk_size'') of
        Finite chunkSize \<Rightarrow>
          (if chunkSize \<le> 0 then Some (Inl InvalidChunkSize)
           else
             (case verifierStream blake2b chunkSize src of
                None \<Rightarrow> None
              | Some (Inl e) \<Rightarrow> Some (Inl e)
              | Some (Inr st) \<Rightarrow>
                  (case merkleRootFromLeafHex blake2b (leafHexes st) of
                     Inl e \<Rightarrow> Some (Inl e)
                   | Inr merkleRes \<Rightarrow>
                       (case signatureCheck verify sg (utf8 (JSON_stringify fmt claims)) of
                          Inl e \<Rightarrow> Some (Inl e)
                        | Inr sigOk \<Rightarrow>
                            Some (Inr (compareWithBundle expectedFile expectedMerkle sg
                                         (stream_state.bytes st)
                                         \<lparr>blake2b_512 = toHex (blake2b (fileBlake2b st)),
                                          sha512 = toHex (sha512h (fileSha512 st))\<rparr>
                                         merkleRes
                                         (sha512Hex sha512h (JSON_stringify fmt claims)) sigOk))))))
      | _ \<Rightarrow> Some (Inl InvalidChunkSize)) = Some (Inr r)"
    unfolding verifyBundle_def Let_def claims_def expectedMerkle_def expectedFile_def sg_def
    by simp
  then obtain chunkSize where n: "toNumber strToNum fmt (getProp expectedMerkle ''chunk_size'') = Finite chunkSize"
    by (cases "toNumber strToNum fmt (getProp expectedMerkle ''chunk_size'')") simp_all
  from run n have pos: "0 < chunkSize"
    by (cases "chunkSize \<le> 0") simp_all
  from run n pos obtain st where st: "verifierStream blake2b chunkSize src = Some (Inr st)"
    by (auto split: option.splits sum.splits)
  from run n pos st obtain merkleRes where
    m: "merkleRootFromLeafHex blake2b (leafHexes st) = Inr merkleRes"
    by (auto split: sum.splits)
  from run n pos st m obtain sigOk where
    s: "signatureCheck verify sg (utf8 (JSON_stringify fmt claims)) = Inr sigOk"
    by (auto split: sum.splits)
  from run n pos st m s have
    r: "r = compareWithBundle expectedFile expectedMerkle sg (stream_state.bytes st)
              \<lparr>blake2b_512 = toHex (blake2b (fileBlake2b st)),
               sha512 = toHex (sha512h (fileSha512 st))\<rparr>
              merkleRes (sha512Hex sha512h (JSON_stringify fmt claims)) sigOk"
    by simp
  show ?thesis
    using Inr a n pos st m s r
    unfolding claims_def expectedMerkle_def expectedFile_def sg_def
    by blast
qed

lemma verifyBundle_returns:
  assumes a: "a \<noteq> JNull"
    and n: "toNumber strToNum fmt
              (getProp (orEmptyObject (getProp (orEmptyObject (getProp a ''claims'')) ''merkle''))
                 ''chunk_size'') = Finite (of_nat c)"
    and c: "0 < c"
    and v: "\<forall>pk m s. \<exists>b. verify pk m s = Inr b"
  shows "\<exists>r. verifyBundle blake2b sha512h fmt strToNum verify (Inr a) (Regular reads) = Some (Inr r)"
proof -
  have pos: "\<not> (of_nat c :: rat) \<le> 0" using c by simp
  have "readAll blake2b (of_nat c) initialState reads = Some (stateAfter blake2b c (concat reads))"
    using readAll_nat [OF c, of blake2b "[]" reads]
    by (simp add: initialState_stateAfter [of blake2b c])
  then obtain st where st: "verifierStream blake2b (of_nat c) (Regular reads) = Some (Inr st)"
    by (simp add: verifierStream_def)
  from merkleRoot_returns [of blake2b "leafHexes st"] obtain merkleRes where
    m: "merkleRootFromLeafHex blake2b (leafHexes st) = Inr merkleRes"
    by blast
  from signatureCheck_returns [OF v] obtain sigOk where
    s: "signatureCheck verify (orEmptyObject (getProp a ''signature''))
          (utf8 (JSON_stringify fmt (orEmptyObject (getProp a ''claims'')))) = Inr sigOk"
    by blast
  show ?thesis
    unfolding verifyBundle_def Let_def
    using a n pos st m s by simp
qed

lemma main_verify:
  "main rt args = Some (VerifyJson r, code) \<longleftrightarrow>
     elemAt args 0 = Some ''verify'' \<and>
     (\<exists>bundlePath filePath.
        truthy (getFlag args ''--bundle'' None) = Some bundlePath \<and>
        truthy (getFlag args ''--file'' None) = Some filePath \<and>
        verifyBundle (rt_blake2b rt) (rt_sha512 rt) (rt_numToStr rt) (rt_strToNum rt)
          (rt_verify rt) (rt_bundle rt bundlePath) (rt_file rt filePath) = Some (Inr r) \<and>
        code = (if ok r then 0 else 3))"
  by (auto simp: main_def Let_def truthy_def
           split: option.splits if_splits sum.splits jsnum.splits)

lemma resultJson_keys:
  "keysOf (resultJson r) = [''ok'', ''bytes'', ''expected'', ''actual'', ''checks'']"
  "keysOf (checksJson c) =
     [''file_blake2b_match'', ''file_sha512_match'', ''merkle_root_match'', ''leaf_count_match'',
      ''signed_message_sha512_match'', ''signature_valid'']"
  by (simp_all add: keysOf_def resultJson_def checksJson_def)

lemma verifyBundle_result:
  assumes "verifyBundle blake2b sha512h fmt strToNum verify parsed src = Some (Inr r)"
  shows "\<exists>a reads chunkSize fp.
           parsed = Inr a \<and> src = Regular reads \<and>
           (let claims = orEmptyObject (getProp a ''claims'');
                expectedMerkle = orEmptyObject (getProp claims ''merkle'');
                expectedFile = orEmptyObject (getProp claims ''file_digests'');
                sg = orEmptyObject (getProp a ''signature'');
                message = JSON_stringify fmt claims
            in toNumber strToNum fmt (getProp expectedMerkle ''chunk_size'') = Finite chunkSize \<and>
               0 < chunkSize \<and>
               streamDigestsAndLeaves blake2b sha512h src chunkSize = Some (Inr fp) \<and>
               bytes r = length (concat reads) \<and>
               expected_file_digests r = expectedFile \<and>
               expected_merkle r = expectedMerkle \<and>
               actual_file_digests r =
                 \<lparr>blake2b_512 = toHex (blake2b (concat reads)),
                  sha512 = toHex (sha512h (concat reads))\<rparr> \<and>
               actual_merkle_root r = root (merkle fp) \<and>
               actual_leaf_count r = mc_leaf_count (merkle fp) \<and>
               (file_blake2b_match (checks r) \<longleftrightarrow>
                  getProp expectedFile ''blake2b_512'' =
                    Some (JStr (toHex (blake2b (concat reads))))) \<and>
               (file_sha512_match (checks r) \<longleftrightarrow>
                  getProp expectedFile ''sha512'' =
                    Some (JStr (toHex (sha512h (concat reads))))) \<and>
               (merkle_root_match (checks r) \<longleftrightarrow>
                  getProp expectedMerkle ''root'' = Some (JStr (root (merkle fp)))) \<and>
               (leaf_count_match (checks r) \<longleftrightarrow>
                  getProp expectedMerkle ''leaf_count'' =
                    Some (JNum (Finite (of_nat (mc_leaf_count (merkle fp)))))) \<and>
               (signed_message_sha512_match (checks r) \<longleftrightarrow>
                  getProp sg ''signed_message_sha512'' =
                    Some (JStr (sha512Hex sha512h message))) \<and>
               (signature_valid (checks r) \<longleftrightarrow>
                  getProp sg ''algorithm'' = Some (JStr ''ed25519'') \<and>
                  (\<exists>pk sb. getProp sg ''public_key_pem'' = Some (JStr pk) \<and>
                           getProp sg ''signature_b64'' = Some (JStr sb) \<and>
                           verify pk (utf8 message) sb = Inr True)))"
proof -
  from verifyBundle_steps [OF assms] obtain a chunkSize st merkleRes sigOk where
    p: "parsed = Inr a"
    and n: "toNumber strToNum fmt
             (getProp (orEmptyObject (getProp (orEmptyObject (getProp a ''claims'')) ''merkle''))
                ''chunk_size'') = Finite chunkSize"
    and pos: "0 < chunkSize"
    and st: "verifierStream blake2b chunkSize src = Some (Inr st)"
    and m: "merkleRootFromLeafHex blake2b (leafHexes st) = Inr merkleRes"
    and s: "signatureCheck verify (orEmptyObject (getProp a ''signature''))
             (utf8 (JSON_stringify fmt (orEmptyObject (getProp a ''claims'')))) = Inr sigOk"
    and r: "r = compareWithBundle
                 (orEmptyObject (getProp (orEmptyObject (getProp a ''claims'')) ''file_digests''))
                 (orEmptyObject (getProp (orEmptyObject (getProp a ''claims'')) ''merkle''))
                 (orEmptyObject (getProp a ''signature''))
                 (stream_state.bytes st)
                 \<lparr>blake2b_512 = toHex (blake2b (fileBlake2b st)),
                  sha512 = toHex (sha512h (fileSha512 st))\<rparr>
                 merkleRes
                 (sha512Hex sha512h (JSON_stringify fmt (orEmptyObject (getProp a ''claims''))))
                 sigOk"
    by blast
  from verifierStream_fingerprint [OF st m, of sha512h] obtain reads fp where
    src: "src = Regular reads"
    and fp: "streamDigestsAndLeaves blake2b sha512h src chunkSize = Some (Inr fp)"
    and k: "stream_state.bytes st = length (concat reads)" "fileBlake2b st = concat reads"
      "fileSha512 st = concat reads"
    and t: "root (merkle fp) = root_hex merkleRes" "mc_leaf_count (merkle fp) = leaf_count merkleRes"
    by blast
  note sv = signatureCheck_valid [OF s]
  have "parsed = Inr a \<and> src = Regular reads \<and>
           (let claims = orEmptyObject (getProp a ''claims'');
                expectedMerkle = orEmptyObject (getProp claims ''merkle'');
                expectedFile = orEmptyObject (getProp claims ''file_digests'');
                sg = orEmptyObject (getProp a ''signature'');
                message = JSON_stringify fmt claims
            in toNumber strToNum fmt (getProp expectedMerkle ''chunk_size'') = Finite chunkSize \<and>
               0 < chunkSize \<and>
               streamDigestsAndLeaves blake2b sha512h src chunkSize = Some (Inr fp) \<and>
               bytes r = length (concat reads) \<and>
               expected_file_digests r = expectedFile \<and>
               expected_merkle r = expectedMerkle \<and>
               actual_file_digests r =
                 \<lparr>blake2b_512 = toHex (blake2b (concat reads)),
                  sha512 = toHex (sha512h (concat reads))\<rparr> \<and>
               actual_merkle_root r = root (merkle fp) \<and>
               actual_leaf_count r = mc_leaf_count (merkle fp) \<and>
               (file_blake2b_match (checks r) \<longleftrightarrow>
                  getProp expectedFile ''blake2b_512'' =
                    Some (JStr (toHex (blake2b (concat reads))))) \<and>
               (file_sha512_match (checks r) \<longleftrightarrow>
                  getProp expectedFile ''sha512'' =
                    Some (JStr (toHex (sha512h (concat reads))))) \<and>
               (merkle_root_match (checks r) \<longleftrightarrow>
                  getProp expectedMerkle ''root'' = Some (JStr (root (merkle fp)))) \<and>
               (leaf_count_match (checks r) \<longleftrightarrow>
                  getProp expectedMerkle ''leaf_count'' =
                    Some (JNum (Finite (of_nat (mc_leaf_count (merkle fp)))))) \<and>
               (signed_message_sha512_match (checks r) \<longleftrightarrow>
                  getProp sg ''signed_message_sha512'' =
                    Some (JStr (sha512Hex sha512h message))) \<and>
               (signature_valid (checks r) \<longleftrightarrow>
                  getProp sg ''algorithm'' = Some (JStr ''ed25519'') \<and>
                  (\<exists>pk sb. getProp sg ''public_key_pem'' = Some (JStr pk) \<and>
                           getProp sg ''signature_b64'' = Some (JStr sb) \<and>
                           verify pk (utf8 message) sb = Inr True)))"
    unfolding Let_def
    using p src n pos fp sv
    by (simp add: r compareWithBundle_def Let_def k t)
  then show ?thesis by blast
qed

lemma verifyBundle_ok:
  assumes "verifyBundle blake2b sha512h fmt strToNum verify parsed src = Some (Inr r)"
  shows "ok r \<longleftrightarrow>
           file_blake2b_match (checks r) \<and> file_sha512_match (checks r) \<and>
           merkle_root_match (checks r) \<and> leaf_count_match (checks r) \<and>
           signed_message_sha512_match (checks r) \<and> signature_valid (checks r)"
proof -
  from verifyBundle_steps [OF assms] obtain ef em sg n af mr d sigOk where
    "r = compareWithBundle ef em sg n af mr d sigOk"
    by blast
  then show ?thesis
    by (simp add: compareWithBundle_def Let_def everyCheck_def)
qed

lemma verify_example_pass:
  "(case main exampleRuntime [''verify'', ''--bundle'', ''attestation.json'', ''--file'', ''data.bin''] of
      Some (VerifyJson r, code) \<Rightarrow> ok r \<and> bytes r = 5
    | _ \<Rightarrow> False)"
  by code_simp

lemma verify_example_fail:
  "(case main exampleRuntime [''verify'', ''--bundle'', ''other.json'', ''--file'', ''data.bin''] of
      Some (VerifyJson r, code) \<Rightarrow> \<not> file_blake2b_match (checks r) \<and> bytes r = 5
    | _ \<Rightarrow> False)"
  by code_simp

lemma verify_example_forged:
  "(case main forgedRuntime [''verify'', ''--bundle'', ''forged.json'', ''--file'', ''data.bin''] of
      Some (VerifyJson r, code) \<Rightarrow>
        file_blake2b_match (checks r) \<and> file_sha512_match (checks r) \<and>
        merkle_root_match (checks r) \<and> leaf_count_match (checks r) \<and>
        signed_message_sha512_match (checks r) \<and> \<not> signature_valid (checks r)
    | _ \<Rightarrow> False)"
  by code_simp

lemma verify_example_returns:
  assumes "(case main rt args of Some (VerifyJson r, code) \<Rightarrow> P r | _ \<Rightarrow> False)"
  obtains r code where "main rt args = Some (VerifyJson r, code)" and "P r"
proof (cases "main rt args")
  case None
  with assms show ?thesis by simp
next
  case (Some p)
  obtain out c where p: "p = (out, c)" by (cases p)
  show ?thesis using assms Some p that by (cases out) auto
qed

text \<open>
  Claim C7, with the key \<open>bytes\<close> that the code uses for the byte count. When
  \<open>verifyBundle\<close> returns a result, the bundle was parsed and the file was read to its
  end; the result is the object \<open>{ok, bytes, expected, actual, checks}\<close>; \<open>bytes\<close> is
  the length of the file; \<open>expected\<close> holds the file digests and the Merkle commitment of
  the bundle's claims; \<open>actual\<close> holds the digests of the file and the root and leaf count
  that the fingerprinter computes for the file at the bundle's chunk size; \<open>checks\<close>
  holds six booleans: the two file digests, the root and the leaf count of the bundle equal
  the actual ones, the \<open>signed_message_sha512\<close> of the signature block is the SHA-512
  of the serialised claims, and the signature block names \<open>ed25519\<close> and carries a key
  and a signature under which the signature verification accepts the serialised claims;
  \<open>ok\<close> holds if and only if all six booleans hold. For a bundle whose chunk size is a
  positive integer, a readable file and a signature verification that does not throw,
  \<open>verifyBundle\<close> returns a result. The command prints a result exactly when its first
  argument is \<open>verify\<close>, both flags are given and \<open>verifyBundle\<close> returns that result
  for the two paths; it then ends with status 0 if and only if \<open>ok\<close> holds, and with
  status 3 if and only if it does not.
\<close>

theorem verify_result_and_exit:
  "(verifyBundle blake2b sha512h fmt strToNum verify parsed src = Some (Inr r) \<longrightarrow>
      (\<exists>a reads chunkSize fp.
           parsed = Inr a \<and> src = Regular reads \<and>
           (let claims = orEmptyObject (getProp a ''claims'');
                expectedMerkle = orEmptyObject (getProp claims ''merkle'');
                expectedFile = orEmptyObject (getProp claims ''file_digests'');
                sg = orEmptyObject (getProp a ''signature'');
                message = JSON_stringify fmt claims
            in toNumber strToNum fmt (getProp expectedMerkle ''chunk_size'') = Finite chunkSize \<and>
               0 < chunkSize \<and>
               streamDigestsAndLeaves blake2b sha512h src chunkSize = Some (Inr fp) \<and>
               bytes r = length (concat reads) \<and>
               expected_file_digests r = expectedFile \<and>
               expected_merkle r = expectedMerkle \<and>
               actual_file_digests r =
                 \<lparr>blake2b_512 = toHex (blake2b (concat reads)),
                  sha512 = toHex (sha512h (concat reads))\<rparr> \<and>
               actual_merkle_root r = root (merkle fp) \<and>
               actual_leaf_count r = mc_leaf_count (merkle fp) \<and>
               (file_blake2b_match (checks r) \<longleftrightarrow>
                  getProp expectedFile ''blake2b_512'' =
                    Some (JStr (toHex (blake2b (concat reads))))) \<and>
               (file_sha512_match (checks r) \<longleftrightarrow>
                  getProp expectedFile ''sha512'' =
                    Some (JStr (toHex (sha512h (concat reads))))) \<and>
               (merkle_root_match (checks r) \<longleftrightarrow>
                  getProp expectedMerkle ''root'' = Some (JStr (root (merkle fp)))) \<and>
               (leaf_count_match (checks r) \<longleftrightarrow>
                  getProp expectedMerkle ''leaf_count'' =
                    Some (JNum (Finite (of_nat (mc_leaf_count (merkle fp)))))) \<and>
               (signed_message_sha512_match (checks r) \<longleftrightarrow>
                  getProp sg ''signed_message_sha512'' =
                    Some (JStr (sha512Hex sha512h message))) \<and>
               (signature_valid (checks r) \<longleftrightarrow>
                  getProp sg ''algorithm'' = Some (JStr ''ed25519'') \<and>
                  (\<exists>pk sb. getProp sg ''public_key_pem'' = Some (JStr pk) \<and>
                           getProp sg ''signature_b64'' = Some (JStr sb) \<and>
                           verify pk (utf8 message) sb = Inr True)))) \<and>
      (ok r \<longleftrightarrow>
         file_blake2b_match (checks r) \<and> file_sha512_match (checks r) \<and>
         merkle_root_match (checks r) \<and> leaf_count_match (checks r) \<and>
         signed_message_sha512_match (checks r) \<and> signature_valid (checks r)) \<and>
      keysOf (resultJson r) = [''ok'', ''bytes'', ''expected'', ''actual'', ''checks''] \<and>
      getProp (resultJson r) ''bytes'' = Some (JNum (Finite (of_nat (bytes r)))) \<and>
      getProp (resultJson r) ''checks'' = Some (checksJson (checks r)) \<and>
      keysOf (checksJson (checks r)) =
        [''file_blake2b_match'', ''file_sha512_match'', ''merkle_root_match'',
         ''leaf_count_match'', ''signed_message_sha512_match'', ''signature_valid'']) \<and>
   (doc \<noteq> JNull \<and>
    toNumber strToNum fmt
      (getProp (orEmptyObject (getProp (orEmptyObject (getProp doc ''claims'')) ''merkle''))
         ''chunk_size'') = Finite (of_nat c) \<and>
    0 < c \<and> (\<forall>pk m s. \<exists>b. verify pk m s = Inr b) \<longrightarrow>
      (\<exists>res. verifyBundle blake2b sha512h fmt strToNum verify (Inr doc) (Regular rs) =
                Some (Inr res))) \<and>
   (main rt args = Some (VerifyJson r, code) \<longleftrightarrow>
      elemAt args 0 = Some ''verify'' \<and>
      (\<exists>bundlePath filePath.
         truthy (getFlag args ''--bundle'' None) = Some bundlePath \<and>
         truthy (getFlag args ''--file'' None) = Some filePath \<and>
         verifyBundle (rt_blake2b rt) (rt_sha512 rt) (rt_numToStr rt) (rt_strToNum rt)
           (rt_verify rt) (rt_bundle rt bundlePath) (rt_file rt filePath) = Some (Inr r) \<and>
         code = (if ok r then 0 else 3))) \<and>
   (main rt args = Some (VerifyJson r, code) \<longrightarrow>
      (code = 0 \<longleftrightarrow> ok r) \<and> (code = 3 \<longleftrightarrow> \<not> ok r))"
proof (intro conjI impI)
  assume "verifyBundle blake2b sha512h fmt strToNum verify parsed src = Some (Inr r)"
  then show "\<exists>a reads chunkSize fp.
           parsed = Inr a \<and> src = Regular reads \<and>
           (let claims = orEmptyObject (getProp a ''claims'');
                expectedMerkle = orEmptyObject (getProp claims ''merkle'');
                expectedFile = orEmptyObject (getProp claims ''file_digests'');
                sg = orEmptyObject (getProp a ''signature'');
                message = JSON_stringify fmt claims
            in toNumber strToNum fmt (getProp expectedMerkle ''chunk_size'') = Finite chunkSize \<and>
               0 < chunkSize \<and>
               streamDigestsAndLeaves blake2b sha512h src chunkSize = Some (Inr fp) \<and>
               bytes r = length (concat reads) \<and>
               expected_file_digests r = expectedFile \<and>
               expected_merkle r = expectedMerkle \<and>
               actual_file_digests r =
                 \<lparr>blake2b_512 = toHex (blake2b (concat reads)),
                  sha512 = toHex (sha512h (concat reads))\<rparr> \<and>
               actual_merkle_root r = root (merkle fp) \<and>
               actual_leaf_count r = mc_leaf_count (merkle fp) \<and>
               (file_blake2b_match (checks r) \<longleftrightarrow>
                  getProp expectedFile ''blake2b_512'' =
                    Some (JStr (toHex (blake2b (concat reads))))) \<and>
               (file_sha512_match (checks r) \<longleftrightarrow>
                  getProp expectedFile ''sha512'' =
                    Some (JStr (toHex (sha512h (concat reads))))) \<and>
               (merkle_root_match (checks r) \<longleftrightarrow>
                  getProp expectedMerkle ''root'' = Some (JStr (root (merkle fp)))) \<and>
               (leaf_count_match (checks r) \<longleftrightarrow>
                  getProp expectedMerkle ''leaf_count'' =
                    Some (JNum (Finite (of_nat (mc_leaf_count (merkle fp)))))) \<and>
               (signed_message_sha512_match (checks r) \<longleftrightarrow>
                  getProp sg ''signed_message_sha512'' =
                    Some (JStr (sha512Hex sha512h message))) \<and>
               (signature_valid (checks r) \<longleftrightarrow>
                  getProp sg ''algorithm'' = Some (JStr ''ed25519'') \<and>
                  (\<exists>pk sb. getProp sg ''public_key_pem'' = Some (JStr pk) \<and>
                           getProp sg ''signature_b64'' = Some (JStr sb) \<and>
                           verify pk (utf8 message) sb = Inr True)))"
    by (rule verifyBundle_result)
next
  assume "verifyBundle blake2b sha512h fmt strToNum verify parsed src = Some (Inr r)"
  then show "ok r \<longleftrightarrow>
         file_blake2b_match (checks r) \<and> file_sha512_match (checks r) \<and>
         merkle_root_match (checks r) \<and> leaf_count_match (checks r) \<and>
         signed_message_sha512_match (checks r) \<and> signature_valid (checks r)"
    by (rule verifyBundle_ok)
next
  show "keysOf (resultJson r) = [''ok'', ''bytes'', ''expected'', ''actual'', ''checks'']"
    by (rule resultJson_keys)
next
  show "getProp (resultJson r) ''bytes'' = Some (JNum (Finite (of_nat (bytes r))))"
    by (simp add: resultJson_def getProp_def)
next
  show "getProp (resultJson r) ''checks'' = Some (checksJson (checks r))"
    by (simp add: resultJson_def getProp_def)
next
  show "keysOf (checksJson (checks r)) =
        [''file_blake2b_match'', ''file_sha512_match'', ''merkle_root_match'',
         ''leaf_count_match'', ''signed_message_sha512_match'', ''signature_valid'']"
    by (rule resultJson_keys)
next
  assume "doc \<noteq> JNull \<and>
    toNumber strToNum fmt
      (getProp (orEmptyObject (getProp (orEmptyObject (getProp doc ''claims'')) ''merkle''))
         ''chunk_size'') = Finite (of_nat c) \<and>
    0 < c \<and> (\<forall>pk m s. \<exists>b. verify pk m s = Inr b)"
  then show "\<exists>res. verifyBundle blake2b sha512h fmt strToNum verify (Inr doc) (Regular rs) =
                Some (Inr res)"
    using verifyBundle_returns [of doc strToNum fmt c verify blake2b sha512h rs] by blast
next
  show "main rt args = Some (VerifyJson r, code) \<longleftrightarrow>
      elemAt args 0 = Some ''verify'' \<and>
      (\<exists>bundlePath filePath.
         truthy (getFlag args ''--bundle'' None) = Some bundlePath \<and>
         truthy (getFlag args ''--file'' None) = Some filePath \<and>
         verifyBundle (rt_blake2b rt) (rt_sha512 rt) (rt_numToStr rt) (rt_strToNum rt)
           (rt_verify rt) (rt_bundle rt bundlePath) (rt_file rt filePath) = Some (Inr r) \<and>
         code = (if ok r then 0 else 3))"
    by (rule main_verify)
next
  assume "main rt args = Some (VerifyJson r, code)"
  then have c: "code = (if ok r then 0 else 3)"
    unfolding main_verify by blast
  show "code = 0 \<longleftrightarrow> ok r" using c by simp
  show "code = 3 \<longleftrightarrow> \<not> ok r" using c by simp
qed

theorem verify_result_and_exit_witness:
  "(\<exists>r. main exampleRuntime
           [''verify'', ''--bundle'', ''attestation.json'', ''--file'', ''data.bin''] =
           Some (VerifyJson r, 0) \<and>
        file_blake2b_match (checks r) \<and> file_sha512_match (checks r) \<and>
        merkle_root_match (checks r) \<and> leaf_count_match (checks r) \<and>
        signed_message_sha512_match (checks r) \<and> signature_valid (checks r) \<and>
        ok r \<and> bytes r = 5) \<and>
   (\<exists>r. main forgedRuntime
           [''verify'', ''--bundle'', ''forged.json'', ''--file'', ''data.bin''] =
           Some (VerifyJson r, 3) \<and>
        file_blake2b_match (checks r) \<and> file_sha512_match (checks r) \<and>
        merkle_root_match (checks r) \<and> leaf_count_match (checks r) \<and>
        signed_message_sha512_match (checks r) \<and> \<not> signature_valid (checks r) \<and>
        \<not> ok r) \<and>
   (\<exists>r. main exampleRuntime
           [''verify'', ''--bundle'', ''other.json'', ''--file'', ''data.bin''] =
           Some (VerifyJson r, 3) \<and>
        \<not> file_blake2b_match (checks r) \<and> \<not> ok r \<and> bytes r = 5) \<and>
   (\<exists>res. verifyBundle toyHash toyHash decimal (rt_strToNum exampleRuntime)
             (rt_verify exampleRuntime)
             (Inr (JObj [(''claims'', JObj [(''merkle'', JObj [(''chunk_size'', JNum (Finite 2))])])]))
             (Regular [[1, 2, 3], [4, 5]]) = Some (Inr res))"
proof -
  note result = verify_result_and_exit [THEN conjunct1, rule_format]
  note returns = verify_result_and_exit [THEN conjunct2, THEN conjunct1, rule_format]
  note printed = verify_result_and_exit [THEN conjunct2, THEN conjunct2, THEN conjunct1]
  note status = verify_result_and_exit [THEN conjunct2, THEN conjunct2, THEN conjunct2, rule_format]
  let ?pass = "[''verify'', ''--bundle'', ''attestation.json'', ''--file'', ''data.bin'']"
  let ?forged = "[''verify'', ''--bundle'', ''forged.json'', ''--file'', ''data.bin'']"
  let ?other = "[''verify'', ''--bundle'', ''other.json'', ''--file'', ''data.bin'']"
  have one: "\<exists>r. main exampleRuntime ?pass = Some (VerifyJson r, 0) \<and>
        file_blake2b_match (checks r) \<and> file_sha512_match (checks r) \<and>
        merkle_root_match (checks r) \<and> leaf_count_match (checks r) \<and>
        signed_message_sha512_match (checks r) \<and> signature_valid (checks r) \<and>
        ok r \<and> bytes r = 5"
  proof -
    obtain r code where m: "main exampleRuntime ?pass = Some (VerifyJson r, code)"
      and e: "ok r \<and> bytes r = 5"
      by (rule verify_example_returns [OF verify_example_pass])
    from printed [THEN iffD1, OF m] obtain bundlePath filePath where
      v: "verifyBundle (rt_blake2b exampleRuntime) (rt_sha512 exampleRuntime)
            (rt_numToStr exampleRuntime) (rt_strToNum exampleRuntime) (rt_verify exampleRuntime)
            (rt_bundle exampleRuntime bundlePath) (rt_file exampleRuntime filePath) = Some (Inr r)"
      by blast
    from result [OF v] have six: "ok r \<longleftrightarrow>
         file_blake2b_match (checks r) \<and> file_sha512_match (checks r) \<and>
         merkle_root_match (checks r) \<and> leaf_count_match (checks r) \<and>
         signed_message_sha512_match (checks r) \<and> signature_valid (checks r)"
      by (rule conjunct2 [THEN conjunct1])
    from status [OF m] e have "code = 0" by simp
    with m e six show ?thesis by blast
  qed
  have two: "\<exists>r. main forgedRuntime ?forged = Some (VerifyJson r, 3) \<and>
        file_blake2b_match (checks r) \<and> file_sha512_match (checks r) \<and>
        merkle_root_match (checks r) \<and> leaf_count_match (checks r) \<and>
        signed_message_sha512_match (checks r) \<and> \<not> signature_valid (checks r) \<and>
        \<not> ok r"
  proof -
    obtain r code where m: "main forgedRuntime ?forged = Some (VerifyJson r, code)"
      and e: "file_blake2b_match (checks r) \<and> file_sha512_match (checks r) \<and>
        merkle_root_match (checks r) \<and> leaf_count_match (checks r) \<and>
        signed_message_sha512_match (checks r) \<and> \<not> signature_valid (checks r)"
      by (rule verify_example_returns [OF verify_example_forged])
    from printed [THEN iffD1, OF m] obtain bundlePath filePath where
      v: "verifyBundle (rt_blake2b forgedRuntime) (rt_sha512 forgedRuntime)
            (rt_numToStr forgedRuntime) (rt_strToNum forgedRuntime) (rt_verify forgedRuntime)
            (rt_bundle forgedRuntime bundlePath) (rt_file forgedRuntime filePath) = Some (Inr r)"
      by blast
    from result [OF v] have six: "ok r \<longleftrightarrow>
         file_blake2b_match (checks r) \<and> file_sha512_match (checks r) \<and>
         merkle_root_match (checks r) \<and> leaf_count_match (checks r) \<and>
         signed_message_sha512_match (checks r) \<and> signature_valid (checks r)"
      by (rule conjunct2 [THEN conjunct1])
    with e have n: "\<not> ok r" by blast
    with status [OF m] have "code = 3" by simp
    with m e n show ?thesis by blast
  qed
  have three: "\<exists>r. main exampleRuntime ?other = Some (VerifyJson r, 3) \<and>
        \<not> file_blake2b_match (checks r) \<and> \<not> ok r \<and> bytes r = 5"
  proof -
    obtain r code where m: "main exampleRuntime ?other = Some (VerifyJson r, code)"
      and e: "\<not> file_blake2b_match (checks r) \<and> bytes r = 5"
      by (rule verify_example_returns [OF verify_example_fail])
    from printed [THEN iffD1, OF m] obtain bundlePath filePath where
      v: "verifyBundle (rt_blake2b exampleRuntime) (rt_sha512 exampleRuntime)
            (rt_numToStr exampleRuntime) (rt_strToNum exampleRuntime) (rt_verify exampleRuntime)
            (rt_bundle exampleRuntime bundlePath) (rt_file exampleRuntime filePath) = Some (Inr r)"
      by blast
    from result [OF v] have six: "ok r \<longleftrightarrow>
         file_blake2b_match (checks r) \<and> file_sha512_match (checks r) \<and>
         merkle_root_match (checks r) \<and> leaf_count_match (checks r) \<and>
         signed_message_sha512_match (checks r) \<and> signature_valid (checks r)"
      by (rule conjunct2 [THEN conjunct1])
    with e have n: "\<not> ok r" by blast
    with status [OF m] have "code = 3" by simp
    with m e n show ?thesis by blast
  qed
  have four: "\<exists>res. verifyBundle toyHash toyHash decimal (rt_strToNum exampleRuntime)
             (rt_verify exampleRuntime)
             (Inr (JObj [(''claims'', JObj [(''merkle'', JObj [(''chunk_size'', JNum (Finite 2))])])]))
             (Regular [[1, 2, 3], [4, 5]]) = Some (Inr res)"
  proof (rule returns [where c = 2])
    show "JObj [(''claims'', JObj [(''merkle'', JObj [(''chunk_size'', JNum (Finite 2))])])] \<noteq> JNull \<and>
      toNumber (rt_strToNum exampleRuntime) decimal
        (getProp (orEmptyObject (getProp (orEmptyObject
           (getProp (JObj [(''claims'', JObj [(''merkle'', JObj [(''chunk_size'', JNum (Finite 2))])])])
              ''claims'')) ''merkle'')) ''chunk_size'') = Finite (of_nat 2) \<and>
      (0 :: nat) < 2 \<and>
      (\<forall>pk m s. \<exists>b. rt_verify exampleRuntime pk m s = Inr b)"
      by (simp add: exampleRuntime_def getProp_def orEmptyObject_def toNumber_def)
  qed
  from one two three four show ?thesis by (intro conjI)
qed

text \<open>
  The specification names the byte count \<open>bytes_read\<close>. The result that the
  verify command prints for the attestation of the five-byte file has no property of that
  name: its properties are \<open>ok\<close>, \<open>bytes\<close>, \<open>expected\<close>, \<open>actual\<close> and \<open>checks\<close>,
  and the byte count 5 is the value of \<open>bytes\<close>.
\<close>

theorem result_has_no_bytes_read:
  "(case main exampleRuntime [''verify'', ''--bundle'', ''attestation.json'', ''--file'', ''data.bin''] of
      Some (VerifyJson r, code) \<Rightarrow>
        getProp (resultJson r) ''bytes_read'' = None \<and>
        getProp (resultJson r) ''bytes'' = Some (JNum (Finite 5)) \<and>
        keysOf (resultJson r) = [''ok'', ''bytes'', ''expected'', ''actual'', ''checks'']
    | _ \<Rightarrow> False)"
  by code_simp

section \<open>Properties of the transparency log\<close>


















end
